theory Spec2Isabelle
  imports Complex_Main "HOL-Library.Sublist"
begin

chapter \<open>The clone element of Ink/Stitch, lib/elements/clone.py\<close>

text \<open>
  A shallow embedding of the class \<^verbatim>\<open>Clone\<close> and the helpers of its module. The SVG
  document is a tree of values addressed by positions; the mutable document is passed
  through the operations as explicit state, together with the list of mutating calls
  made on it; exceptions are values of a sum type; the context manager
  \<^verbatim>\<open>clone_elements\<close> takes the block of the \<^verbatim>\<open>with\<close> statement as an argument, so that
  its \<^verbatim>\<open>try\<close>/\<^verbatim>\<open>finally\<close> encloses the block as it does in Python.
\<close>

section \<open>Failures\<close>

text \<open>
  The exceptions that \<^verbatim>\<open>lib/elements/clone.py\<close> can let escape, as values.
  \<^item> \<open>AttributeError\<close>: a method call on \<^verbatim>\<open>None\<close> (an unresolved \<^verbatim>\<open>href\<close>, a node
    without parent).
  \<^item> \<open>ZeroDivisionError\<close>: unary minus on a transform whose determinant is zero.
  \<^item> \<open>ValueError\<close>: \<^verbatim>\<open>float(...)\<close> on an attribute value that is not a number, and
    \<^verbatim>\<open>parent.remove(child)\<close> when \<^verbatim>\<open>child\<close> is not a child of \<^verbatim>\<open>parent\<close>.
  \<^item> \<open>TypeError\<close>: \<^verbatim>\<open>degrees(None)\<close>, when the polar angle of the zero vector is asked
    for.
  \<^item> \<open>UnboundLocalError\<close>: a read of \<^verbatim>\<open>angle_transform\<close> before it was assigned.
  \<^item> \<open>CollaboratorError\<close>: whatever a drawable's own \<^verbatim>\<open>to_stitch_groups\<close> raises.
\<close>

datatype error =
    AttributeError
  | ZeroDivisionError
  | ValueError
  | TypeError
  | UnboundLocalError
  | CollaboratorError string

section \<open>Affine transforms\<close>

text \<open>
  \<^verbatim>\<open>clone.py\<close> computes with \<^verbatim>\<open>inkex.Transform\<close>, a class of the inkex library. A
  transform holds the six coefficients of the matrix \<open>((a, c, e), (b, d, f))\<close>. Python
  floats are idealised as real numbers. The operations below are the ones the module
  calls on the class, with the meaning the library gives them:
  \<^item> the constructor from a hexad \<^verbatim>\<open>Transform((a, b, c, d, e, f))\<close>;
  \<^item> \<^verbatim>\<open>s @ other\<close> (\<open>matmul\<close>), the matrix product: \<open>other\<close> is applied first;
  \<^item> \<^verbatim>\<open>-s\<close> (\<open>neg\<close>): \<^verbatim>\<open>Transform.__neg__\<close> returns the inverted transformation; it
    divides by the determinant \<open>a * d - c * b\<close>, so a singular transform raises
    \<^verbatim>\<open>ZeroDivisionError\<close>;
  \<^item> \<^verbatim>\<open>add_scale(sc_x, sc_y)\<close>, the product with the scaling matrix;
  \<^item> \<^verbatim>\<open>apply_to_point\<close>, the image of a point;
  \<^item> \<^verbatim>\<open>Transform("rotate(deg)")\<close>, the rotation about the origin by \<open>deg\<close> degrees.
\<close>

datatype transform =
  Transform (t_a: real) (t_b: real) (t_c: real) (t_d: real) (t_e: real) (t_f: real)

definition identity :: transform where
  "identity = Transform 1 0 0 1 0 0"

definition matmul :: "transform \<Rightarrow> transform \<Rightarrow> transform" where
  "matmul s other = Transform
     (t_a s * t_a other + t_c s * t_b other)
     (t_b s * t_a other + t_d s * t_b other)
     (t_a s * t_c other + t_c s * t_d other)
     (t_b s * t_c other + t_d s * t_d other)
     (t_a s * t_e other + t_c s * t_f other + t_e s)
     (t_b s * t_e other + t_d s * t_f other + t_f s)"

definition neg :: "transform \<Rightarrow> error + transform" where
  "neg s =
     (let det = t_a s * t_d s - t_c s * t_b s in
      if det = 0 then Inl ZeroDivisionError
      else
        let new_a = t_d s / det;
            new_d = t_a s / det;
            new_c = - t_c s / det;
            new_b = - t_b s / det;
            new_e = - (new_a * t_e s + new_c * t_f s);
            new_f = - (new_b * t_e s + new_d * t_f s)
        in Inr (Transform new_a new_b new_c new_d new_e new_f))"

definition add_scale :: "transform \<Rightarrow> real \<Rightarrow> real \<Rightarrow> transform" where
  "add_scale s sc_x sc_y = matmul s (Transform sc_x 0 0 sc_y 0 0)"

definition apply_to_point :: "transform \<Rightarrow> real \<times> real \<Rightarrow> real \<times> real" where
  "apply_to_point s p =
     (t_a s * fst p + t_c s * snd p + t_e s, t_b s * fst p + t_d s * snd p + t_f s)"

definition radians :: "real \<Rightarrow> real" where
  "radians x = x * pi / 180"

definition degrees :: "real \<Rightarrow> real" where
  "degrees x = x * 180 / pi"

text \<open>
  \<^verbatim>\<open>Transform("rotate(deg)")\<close> has the coefficients (cos, sin, -sin, cos, 0, 0) of the
  angle in radians.
\<close>

definition rotate_transform :: "real \<Rightarrow> transform" where
  "rotate_transform deg =
     Transform (cos (radians deg)) (sin (radians deg))
               (- sin (radians deg)) (cos (radians deg)) 0 0"

text \<open>\<^verbatim>\<open>math.atan2(y, x)\<close> on reals, with values in \<open>(-pi, pi]\<close> and \<open>atan2 0 0 = 0\<close>.\<close>

definition atan2 :: "real \<Rightarrow> real \<Rightarrow> real" where
  "atan2 y x =
     (if 0 < x then arctan (y / x)
      else if x < 0 \<and> 0 \<le> y then arctan (y / x) + pi
      else if x < 0 \<and> y < 0 then arctan (y / x) - pi
      else if 0 < y then pi / 2
      else if y < 0 then - (pi / 2)
      else 0)"

text \<open>
  \<^verbatim>\<open>Vector2d.angle\<close>: the polar angle in radians, and \<^verbatim>\<open>None\<close> for the zero vector.
\<close>

definition vector_angle :: "real \<times> real \<Rightarrow> real option" where
  "vector_angle p = (if fst p = 0 \<and> snd p = 0 then None else Some (atan2 (snd p) (fst p)))"

section \<open>The module-level helpers of clone.py\<close>

definition is_transform_flipped :: "transform \<Rightarrow> bool" where
  "is_transform_flipped t \<longleftrightarrow> t_a t * t_d t < t_b t * t_c t"

definition angle_for_transform :: "transform \<Rightarrow> error + real" where
  "angle_for_transform t0 =
     (let t = Transform (t_a t0) (t_b t0) (t_c t0) (t_d t0) 0 0;
          t' = (if is_transform_flipped t then add_scale t (- 1) 1 else t)
      in case vector_angle (apply_to_point t' (1, 0)) of
           None \<Rightarrow> Inl TypeError
         | Some r \<Rightarrow> Inr (degrees r))"

section \<open>The document tree\<close>

text \<open>
  A node of the SVG document is addressed by its position: the list of child indices
  leading to it from the root. Of a node's attributes the model keeps, typed, the ones
  \<^verbatim>\<open>clone.py\<close> reads or writes: the tag, the \<^verbatim>\<open>transform\<close> attribute (parsed; the
  identity when absent), the fill angle \<^verbatim>\<open>INKSTITCH_ATTRIBS['angle']\<close> (absent, a number,
  or text that \<^verbatim>\<open>float\<close> rejects) and \<^verbatim>\<open>href\<close> (the position of the node the
  reference resolves to). All other attributes are carried in \<open>attrib\<close>.

  The \<^verbatim>\<open>transform\<close> attribute is held as the transform it parses to, and reading it
  is a pure function of the tree. The text of the attribute is not part of the model:
  where the library renders a transform that was read through it back into the
  attribute of the node (the read of line 118, and \<^verbatim>\<open>composed_transform\<close> in lines 122
  and 123, on the node and on its ancestors), the model has no event and no change.
  What is stated below about the attributes of a node is stated about these values.
\<close>

type_synonym path = "nat list"

datatype attr_value = Numeric real | NonNumeric string

record node_data =
  tag :: string
  transform :: transform
  angle :: "attr_value option"
  href :: "path option"
  attrib :: "(string \<times> string) list"

datatype node = Node (data: node_data) (children: "node list")

fun get_node :: "node \<Rightarrow> path \<Rightarrow> node option" where
  "get_node n [] = Some n"
| "get_node n (i # p) =
     (if i < length (children n) then get_node (children n ! i) p else None)"

fun update_node :: "(node \<Rightarrow> node) \<Rightarrow> path \<Rightarrow> node \<Rightarrow> node" where
  "update_node g [] n = g n"
| "update_node g (i # p) n =
     (if i < length (children n)
      then Node (data n) ((children n)[i := update_node g p (children n ! i)])
      else n)"

fun count_nodes :: "node \<Rightarrow> nat" and count_forest :: "node list \<Rightarrow> nat" where
  "count_nodes (Node d cs) = Suc (count_forest cs)"
| "count_forest [] = 0"
| "count_forest (c # cs) = count_nodes c + count_forest cs"

text \<open>
  The document is mutable shared state. Besides the tree, the state records every
  mutating call made on it, in order.
\<close>

datatype event = Added path | Removed path | SetTransform path | SetAngle path

record document =
  root :: node
  mutations :: "event list"

text \<open>\<^verbatim>\<open>parent.add(child)\<close> appends; the result is the position of the new child.\<close>

definition add :: "path \<Rightarrow> node \<Rightarrow> document \<Rightarrow> error + (path \<times> document)" where
  "add parent child doc =
     (case get_node (root doc) parent of
        None \<Rightarrow> Inl AttributeError
      | Some p \<Rightarrow>
          let pos = parent @ [length (children p)] in
          Inr (pos,
               doc\<lparr>root := update_node (\<lambda>n. Node (data n) (children n @ [child])) parent (root doc),
                   mutations := mutations doc @ [Added pos]\<rparr>))"

text \<open>
  \<^verbatim>\<open>parent.remove(child)\<close> for the child at position \<open>pos\<close>; lxml raises
  \<^verbatim>\<open>ValueError\<close> when the node is not there.
\<close>

definition remove :: "path \<Rightarrow> document \<Rightarrow> error + document" where
  "remove pos doc =
     (if pos \<noteq> [] \<and> get_node (root doc) pos \<noteq> None
      then Inr (doc\<lparr>root := update_node
                         (\<lambda>n. Node (data n) (take (last pos) (children n) @ drop (Suc (last pos)) (children n)))
                         (butlast pos) (root doc),
                     mutations := mutations doc @ [Removed pos]\<rparr>)
      else Inl ValueError)"

definition set_transform :: "path \<Rightarrow> transform \<Rightarrow> document \<Rightarrow> document" where
  "set_transform pos t doc =
     doc\<lparr>root := update_node (\<lambda>n. Node ((data n)\<lparr>transform := t\<rparr>) (children n)) pos (root doc),
         mutations := mutations doc @ [SetTransform pos]\<rparr>"

definition set_angle :: "path \<Rightarrow> real \<Rightarrow> document \<Rightarrow> document" where
  "set_angle pos v doc =
     doc\<lparr>root := update_node (\<lambda>n. Node ((data n)\<lparr>angle := Some (Numeric v)\<rparr>) (children n)) pos (root doc),
         mutations := mutations doc @ [SetAngle pos]\<rparr>"

text \<open>\<^verbatim>\<open>copy.deepcopy\<close> of a subtree: trees are values, the copy is the value itself.\<close>

definition deepcopy :: "node \<Rightarrow> node" where
  "deepcopy n = n"

text \<open>
  \<^verbatim>\<open>BaseElement.composed_transform()\<close>: the parent's composed transform times the
  node's own, that is, the product of the transforms from the root down to the node.
\<close>

fun compose_along :: "transform \<Rightarrow> node \<Rightarrow> path \<Rightarrow> transform option" where
  "compose_along acc n [] = Some acc"
| "compose_along acc n (i # p) =
     (if i < length (children n)
      then compose_along (matmul acc (transform (data (children n ! i)))) (children n ! i) p
      else None)"

definition composed_transform :: "node \<Rightarrow> path \<Rightarrow> transform option" where
  "composed_transform tree pos = compose_along (transform (data tree)) tree pos"

text \<open>
  \<^verbatim>\<open>node.iterdescendants()\<close>: the proper descendants in document order, each with its
  position relative to the node.
\<close>

fun subtree_nodes :: "node \<Rightarrow> (path \<times> node) list"
  and forest_nodes :: "nat \<Rightarrow> node list \<Rightarrow> (path \<times> node) list" where
  "subtree_nodes (Node d cs) = ([], Node d cs) # forest_nodes 0 cs"
| "forest_nodes i [] = []"
| "forest_nodes i (c # cs) =
     map (\<lambda>(q, m). (i # q, m)) (subtree_nodes c) @ forest_nodes (Suc i) cs"

definition iterdescendants :: "node \<Rightarrow> (path \<times> node) list" where
  "iterdescendants n = forest_nodes 0 (children n)"

section \<open>Collaborators\<close>

text \<open>
  Modelled from the spec: the constants \<^verbatim>\<open>EMBROIDERABLE_TAGS\<close> and \<^verbatim>\<open>SVG_GROUP_TAG\<close> of
  \<^verbatim>\<open>lib/svg/tags.py\<close>, the flattening function \<^verbatim>\<open>node_to_elements\<close> of
  \<^verbatim>\<open>lib/elements/utils.py\<close> ("node -> sequence of Drawable for a single eligible
  node") and the two capabilities of a drawable, \<^verbatim>\<open>to_stitch_groups(last_patch)\<close> and
  \<^verbatim>\<open>get_cache_key(previous_stitch)\<close>, are not part of \<^verbatim>\<open>clone.py\<close>. They are parameters.
  \<open>node_to_elements\<close> gives the classes of the elements built for a node (called with
  \<^verbatim>\<open>clone_to_element=True\<close>); every such element wraps that node. A drawable's
  capability is a function of the element's class and of the element's node as it is in
  the document when the call is made.
\<close>

record ('patch, 'stitch, 'key) env =
  EMBROIDERABLE_TAGS :: "string list"
  SVG_GROUP_TAG :: string
  node_to_elements :: "node \<Rightarrow> string list"
  element_to_stitch_groups :: "string \<Rightarrow> node \<Rightarrow> 'patch option \<Rightarrow> error + 'patch list"
  get_cache_key :: "string \<Rightarrow> node \<Rightarrow> 'stitch \<Rightarrow> 'key"

datatype element = Element (element_class: string) (element_node: path)

section \<open>The class Clone\<close>

text \<open>
  A \<^verbatim>\<open>Clone\<close> wraps the position of its \<^verbatim>\<open>use\<close> node. Its parameters
  \<^verbatim>\<open>clone_fill_angle\<close> (\<^verbatim>\<open>None\<close> when unset) and \<^verbatim>\<open>flip_angle\<close> are read through the
  cached parameter layer of the base class, once; they are fields here.
\<close>

record clone =
  node :: path
  clone_fill_angle :: "real option"
  flip_angle :: bool

text \<open>
  \<^verbatim>\<open>get_clone_source(node)\<close> is \<^verbatim>\<open>node.href\<close>: the referenced node, or \<^verbatim>\<open>None\<close> when
  the reference does not resolve.
\<close>

definition get_clone_source :: "node \<Rightarrow> path \<Rightarrow> path option" where
  "get_clone_source tree pos =
     (case get_node tree pos of
        None \<Rightarrow> None
      | Some n \<Rightarrow>
          (case href (data n) of
             None \<Rightarrow> None
           | Some src \<Rightarrow> (case get_node tree src of None \<Rightarrow> None | Some _ \<Rightarrow> Some src)))"

text \<open>
  \<open>is_clone\<close>, lines 171 to 174. The constant \<^verbatim>\<open>SVG_USE_TAG\<close> of \<^verbatim>\<open>lib/svg/tags.py\<close> and the
  function \<^verbatim>\<open>is_command_symbol\<close> of \<^verbatim>\<open>lib/commands.py\<close> are not part of \<^verbatim>\<open>clone.py\<close>;
  they are parameters. \<^verbatim>\<open>node.get(XLINK_HREF)\<close> is true when the node carries a reference.
\<close>

definition is_clone :: "string \<Rightarrow> (node \<Rightarrow> bool) \<Rightarrow> node \<Rightarrow> bool" where
  "is_clone SVG_USE_TAG is_command_symbol n \<longleftrightarrow>
     (if tag (data n) = SVG_USE_TAG \<and> href (data n) \<noteq> None \<and> \<not> is_command_symbol n
      then True else False)"

definition elements_at :: "('patch, 'stitch, 'key) env \<Rightarrow> path \<Rightarrow> node \<Rightarrow> element list" where
  "elements_at env pos n = map (\<lambda>cls. Element cls pos) (node_to_elements env n)"

definition clone_to_elements :: "('patch, 'stitch, 'key) env \<Rightarrow> node \<Rightarrow> path \<Rightarrow> element list" where
  "clone_to_elements env tree pos =
     (case get_node tree pos of
        None \<Rightarrow> []
      | Some n \<Rightarrow>
          if tag (data n) \<in> set (EMBROIDERABLE_TAGS env) then elements_at env pos n
          else if tag (data n) = SVG_GROUP_TAG env
          then concat (map (\<lambda>(q, child). elements_at env (pos @ q) child) (iterdescendants n))
          else [])"

text \<open>
  Lines 120 to 125: the angle transform of derived mode. Python evaluates
  \<^verbatim>\<open>cloned_transform @ -source_transform\<close> and keeps the coefficients a, b, c, d.
\<close>

definition angle_transform_of :: "node \<Rightarrow> path \<Rightarrow> path \<Rightarrow> error + transform" where
  "angle_transform_of tree src dup =
     (case composed_transform tree src of
        None \<Rightarrow> Inl AttributeError
      | Some source_transform \<Rightarrow>
          (case composed_transform tree dup of
             None \<Rightarrow> Inl AttributeError
           | Some cloned_transform \<Rightarrow>
               (case neg source_transform of
                  Inl err \<Rightarrow> Inl err
                | Inr neg_source \<Rightarrow>
                    let angle_transform = matmul cloned_transform neg_source in
                    Inr (Transform (t_a angle_transform) (t_b angle_transform)
                                   (t_c angle_transform) (t_d angle_transform) 0 0))))"

text \<open>\<^verbatim>\<open>float(element.node.get(INKSTITCH_ATTRIBS['angle'], 0))\<close>\<close>

definition float_of_angle :: "attr_value option \<Rightarrow> error + real" where
  "float_of_angle v =
     (case v of
        None \<Rightarrow> Inr 0
      | Some (Numeric x) \<Rightarrow> Inr x
      | Some (NonNumeric s) \<Rightarrow> Inl ValueError)"

text \<open>
  Lines 132 to 142, for one element whose node carries the angle attribute \<open>v\<close>. The
  f-string \<^verbatim>\<open>f"rotate(${-element_angle})"\<close> renders as \<^verbatim>\<open>rotate($\<close>x\<^verbatim>\<open>)\<close> with x the
  negated angle; the transform parser reads the numbers out of the argument text, so the
  dollar sign is skipped and the transform is the rotation by x degrees.
\<close>

definition element_angle :: "clone \<Rightarrow> transform option \<Rightarrow> attr_value option \<Rightarrow> error + real" where
  "element_angle c angle_transform v =
     (case (case clone_fill_angle c of
              None \<Rightarrow>
                (case float_of_angle v of
                   Inl err \<Rightarrow> Inl err
                 | Inr a_local \<Rightarrow>
                     (case angle_transform of
                        None \<Rightarrow> Inl UnboundLocalError
                      | Some atf \<Rightarrow>
                          (case vector_angle
                                  (apply_to_point (matmul atf (rotate_transform (- a_local))) (1, 0)) of
                             None \<Rightarrow> Inl TypeError
                           | Some r \<Rightarrow> Inr (- degrees r))))
            | Some x \<Rightarrow> Inr x) of
        Inl err \<Rightarrow> Inl err
      | Inr x \<Rightarrow> Inr (if flip_angle c then - x else x))"

text \<open>The loop of lines 128 to 144; it stops at the first failure.\<close>

fun assign_angles :: "clone \<Rightarrow> transform option \<Rightarrow> element list \<Rightarrow> document \<Rightarrow> document \<times> error option" where
  "assign_angles c angle_transform [] doc = (doc, None)"
| "assign_angles c angle_transform (el # els) doc =
     (case get_node (root doc) (element_node el) of
        None \<Rightarrow> (doc, Some AttributeError)
      | Some n \<Rightarrow>
          (case element_angle c angle_transform (angle (data n)) of
             Inl err \<Rightarrow> (doc, Some err)
           | Inr x \<Rightarrow> assign_angles c angle_transform els (set_angle (element_node el) x doc)))"

text \<open>
  The \<^verbatim>\<open>try\<close> block of \<open>clone_elements\<close> up to the \<^verbatim>\<open>yield\<close>, lines 118 to 145: the
  transform of the duplicate, the angle transform of derived mode, the elements of the
  duplicate and their angles. The result is the list that the \<^verbatim>\<open>yield\<close> hands out, or
  the failure raised on the way.
\<close>

definition materialize ::
  "('patch, 'stitch, 'key) env \<Rightarrow> clone \<Rightarrow> path \<Rightarrow> path \<Rightarrow> document \<Rightarrow> document \<times> (error + element list)" where
  "materialize env c src dup doc =
     (case get_node (root doc) (node c) of
        None \<Rightarrow> (doc, Inl AttributeError)
      | Some self_node \<Rightarrow>
          (case get_node (root doc) dup of
             None \<Rightarrow> (doc, Inl AttributeError)
           | Some cloned_node \<Rightarrow>
               let doc1 = set_transform dup
                            (matmul (transform (data self_node)) (transform (data cloned_node))) doc
               in
               (case (if clone_fill_angle c = None
                      then (case angle_transform_of (root doc1) src dup of
                              Inl err \<Rightarrow> Inl err
                            | Inr atf \<Rightarrow> Inr (Some atf))
                      else Inr None) of
                  Inl err \<Rightarrow> (doc1, Inl err)
                | Inr angle_transform \<Rightarrow>
                    let elements = clone_to_elements env (root doc1) dup in
                    (case assign_angles c angle_transform elements doc1 of
                       (doc2, Some err) \<Rightarrow> (doc2, Inl err)
                     | (doc2, None) \<Rightarrow> (doc2, Inr elements)))))"

text \<open>
  The context manager \<open>clone_elements\<close> together with the \<^verbatim>\<open>with\<close> block \<open>body\<close> that
  uses it. The block runs at the \<^verbatim>\<open>yield\<close>, inside the \<^verbatim>\<open>try\<close>; over an ineligible
  source it runs on the empty list, with nothing to undo. The \<^verbatim>\<open>finally\<close> clause runs
  on every way out of the \<^verbatim>\<open>try\<close>; a failure of \<^verbatim>\<open>parent.remove\<close> there would replace
  the result.
\<close>

definition clone_elements ::
  "('patch, 'stitch, 'key) env \<Rightarrow> clone \<Rightarrow> (node \<Rightarrow> element list \<Rightarrow> error + 'r) \<Rightarrow> document
     \<Rightarrow> document \<times> (error + 'r)" where
  "clone_elements env c body doc =
     (case get_clone_source (root doc) (node c) of
        None \<Rightarrow> (doc, Inl AttributeError)
      | Some src \<Rightarrow>
          (case get_node (root doc) src of
             None \<Rightarrow> (doc, Inl AttributeError)
           | Some source_node \<Rightarrow>
               if tag (data source_node) \<notin> set (EMBROIDERABLE_TAGS env)
                  \<and> tag (data source_node) \<noteq> SVG_GROUP_TAG env
               then (doc, body (root doc) [])
               else if node c = [] then (doc, Inl AttributeError)
               else
                 (case add (butlast (node c)) (deepcopy source_node) doc of
                    Inl err \<Rightarrow> (doc, Inl err)
                  | Inr (dup, doc1) \<Rightarrow>
                      let (doc2, res) = materialize env c src dup doc1;
                          out = (case res of
                                   Inl err \<Rightarrow> Inl err
                                 | Inr elements \<Rightarrow> body (root doc2) elements)
                      in (case remove dup doc2 of
                            Inl err \<Rightarrow> (doc2, Inl err)
                          | Inr doc3 \<Rightarrow> (doc3, out)))))"

text \<open>One call of a drawable's \<^verbatim>\<open>to_stitch_groups\<close>, on the element's node as it is now.\<close>

definition element_call ::
  "('patch, 'stitch, 'key) env \<Rightarrow> node \<Rightarrow> element \<Rightarrow> 'patch option \<Rightarrow> error + 'patch list" where
  "element_call env tree el last_patch =
     (case get_node tree (element_node el) of
        None \<Rightarrow> Inl AttributeError
      | Some n \<Rightarrow> element_to_stitch_groups env (element_class el) n last_patch)"

text \<open>The loop of \<open>to_stitch_groups\<close>, lines 84 to 92, with \<open>patches\<close> as accumulator.\<close>

fun run_elements ::
  "('patch, 'stitch, 'key) env \<Rightarrow> node \<Rightarrow> element list \<Rightarrow> 'patch option \<Rightarrow> 'patch list
     \<Rightarrow> error + 'patch list" where
  "run_elements env tree [] last_patch patches = Inr patches"
| "run_elements env tree (el # els) last_patch patches =
     (case element_call env tree el last_patch of
        Inl err \<Rightarrow> Inl err
      | Inr stitch_groups \<Rightarrow>
          if length stitch_groups \<noteq> 0
          then run_elements env tree els (Some (last stitch_groups)) (patches @ stitch_groups)
          else run_elements env tree els last_patch patches)"

definition to_stitch_groups ::
  "('patch, 'stitch, 'key) env \<Rightarrow> clone \<Rightarrow> 'patch option \<Rightarrow> document
     \<Rightarrow> document \<times> (error + 'patch list)" where
  "to_stitch_groups env c last_patch doc =
     clone_elements env c (\<lambda>tree elements. run_elements env tree elements last_patch []) doc"



section \<open>Notions used in the proofs\<close>

text \<open>
  \<open>with_child t parent d\<close> is the tree \<open>t\<close> with \<open>d\<close> appended to the children of the node
  at \<open>parent\<close>: the shape of the document while a duplicate is in it. A function on nodes
  is \<open>data_only\<close> when it leaves the children alone. A \<open>scoped_write\<close> is an attribute
  write at or below the position \<open>dup\<close>.
\<close>

definition with_child :: "node \<Rightarrow> path \<Rightarrow> node \<Rightarrow> node" where
  "with_child t parent d = update_node (\<lambda>n. Node (data n) (children n @ [d])) parent t"

definition data_only :: "(node \<Rightarrow> node) \<Rightarrow> bool" where
  "data_only g \<longleftrightarrow> (\<forall>n. children (g n) = children n)"

definition scoped_write :: "path \<Rightarrow> event \<Rightarrow> bool" where
  "scoped_write dup ev \<longleftrightarrow> (\<exists>q. ev = SetTransform (dup @ q) \<or> ev = SetAngle (dup @ q))"

section \<open>Example documents\<close>

text \<open>
  A document with a group of three rectangles and a clone of the group; the collaborator
  fails on a node that carries an id. A second document whose clone refers to a text node.
\<close>

definition demo_shape :: "string \<Rightarrow> (string \<times> string) list \<Rightarrow> node" where
  "demo_shape t kv = Node \<lparr>tag = t, transform = identity, angle = None, href = None, attrib = kv\<rparr> []"

definition demo_env :: "(string, unit, string) env" where
  "demo_env = \<lparr>EMBROIDERABLE_TAGS = [''path'', ''rect''], SVG_GROUP_TAG = ''g'',
     node_to_elements = (\<lambda>n. if tag (data n) = ''rect'' then [''FillStitch''] else []),
     element_to_stitch_groups =
       (\<lambda>cls n last_patch. if attrib (data n) = [] then Inr [tag (data n)]
                            else Inl (CollaboratorError ''boom'')),
     get_cache_key = (\<lambda>cls n previous_stitch. tag (data n))\<rparr>"

definition demo_doc :: document where
  "demo_doc = \<lparr>root = Node \<lparr>tag = ''svg'', transform = identity, angle = None, href = None, attrib = []\<rparr>
      [Node \<lparr>tag = ''g'', transform = identity, angle = None, href = None, attrib = []\<rparr>
         [demo_shape ''rect'' [], demo_shape ''rect'' [(''id'', ''r2'')], demo_shape ''rect'' []],
       Node \<lparr>tag = ''use'', transform = identity, angle = None, href = Some [0], attrib = []\<rparr> []],
     mutations = []\<rparr>"

definition demo_clone :: clone where
  "demo_clone = \<lparr>node = [1], clone_fill_angle = Some 45, flip_angle = True\<rparr>"

definition demo_text_doc :: document where
  "demo_text_doc = \<lparr>root = Node \<lparr>tag = ''svg'', transform = identity, angle = None, href = None, attrib = []\<rparr>
      [demo_shape ''text'' [],
       Node \<lparr>tag = ''use'', transform = identity, angle = None, href = Some [0], attrib = []\<rparr> []],
     mutations = []\<rparr>"

section \<open>The stitch group pipeline, as the spec words it\<close>

text \<open>
  The context according to the spec's wording: start from the caller's last patch; a
  drawable that yields one or more groups sets it to the last of them, a drawable that
  yields none leaves it.
\<close>

fun last_patch_after :: "'p option \<Rightarrow> 'p list list \<Rightarrow> 'p option" where
  "last_patch_after last_patch [] = last_patch"
| "last_patch_after last_patch (g # gs) =
     last_patch_after (if g = [] then last_patch else Some (last g)) gs"

definition pipeline_env :: "(string, unit, string) env" where
  "pipeline_env = \<lparr>EMBROIDERABLE_TAGS = [''path'', ''rect''], SVG_GROUP_TAG = ''g'',
     node_to_elements = (\<lambda>n. if tag (data n) = ''rect'' then [''FillStitch''] else []),
     element_to_stitch_groups =
       (\<lambda>cls n last_patch.
          if attrib (data n) = [(''id'', ''D1'')] then Inr [''a'', ''b'']
          else if attrib (data n) = [(''id'', ''D2'')] then Inr []
          else Inr [case last_patch of None \<Rightarrow> ''first'' | Some s \<Rightarrow> ''after-'' @ s]),
     get_cache_key = (\<lambda>cls n previous_stitch. tag (data n))\<rparr>"

definition pipeline_tree :: node where
  "pipeline_tree = Node \<lparr>tag = ''g'', transform = identity, angle = None, href = None, attrib = []\<rparr>
     [demo_shape ''rect'' [(''id'', ''D1'')], demo_shape ''rect'' [(''id'', ''D2'')],
      demo_shape ''rect'' [(''id'', ''D3'')]]"

section \<open>Example documents with a duplicate in place\<close>

text \<open>
  The example document after the insertion of the duplicate of its group, a clone in
  derived mode, and a document whose clone is rotated by a quarter turn, with the
  duplicate of its rectangle in place.
\<close>

definition demo_group :: node where
  "demo_group = Node \<lparr>tag = ''g'', transform = identity, angle = None, href = None, attrib = []\<rparr>
         [demo_shape ''rect'' [], demo_shape ''rect'' [(''id'', ''r2'')], demo_shape ''rect'' []]"

definition demo_doc1 :: document where
  "demo_doc1 = \<lparr>root = with_child (root demo_doc) [] demo_group, mutations = [Added [2]]\<rparr>"

definition demo_derived_clone :: clone where
  "demo_derived_clone = \<lparr>node = [1], clone_fill_angle = None, flip_angle = False\<rparr>"

definition derived_doc1 :: document where
  "derived_doc1 = \<lparr>root = Node \<lparr>tag = ''svg'', transform = identity, angle = None, href = None, attrib = []\<rparr>
      [demo_shape ''rect'' [],
       Node \<lparr>tag = ''use'', transform = Transform 0 1 (- 1) 0 0 0, angle = None, href = Some [0], attrib = []\<rparr> [],
       demo_shape ''rect'' []],
     mutations = [Added [2]]\<rparr>"

section \<open>The derived mode, as the spec words it\<close>

text \<open>
  The two operations of the spec's derived mode, following its words: \<open>negate_of\<close> is
  "the algebraic additive inverse of each matrix coefficient of the rotation/scale
  sub-block (translation zeroed)", \<open>strip_translation\<close> "returns a transform identical to
  A except e=f=0".
\<close>

definition negate_of :: "transform \<Rightarrow> transform" where
  "negate_of t = Transform (- t_a t) (- t_b t) (- t_c t) (- t_d t) 0 0"

definition strip_translation :: "transform \<Rightarrow> transform" where
  "strip_translation t = Transform (t_a t) (t_b t) (t_c t) (t_d t) 0 0"

definition demo_derived_doc :: document where
  "demo_derived_doc = set_transform [2] (matmul identity identity) demo_doc1"

section \<open>Reference chains and further examples\<close>

text \<open>
  Following references: \<open>chain_from tree k pos\<close> is the node reached from \<open>pos\<close> by
  resolving \<open>k\<close> references in a row, when they all resolve.
\<close>

fun chain_from :: "node \<Rightarrow> nat \<Rightarrow> path \<Rightarrow> path option" where
  "chain_from tree 0 pos = Some pos"
| "chain_from tree (Suc k) pos =
     (case get_clone_source tree pos of None \<Rightarrow> None | Some src \<Rightarrow> chain_from tree k src)"

text \<open>Two clones that refer to each other.\<close>

definition cyclic_doc :: document where
  "cyclic_doc = \<lparr>root = Node \<lparr>tag = ''svg'', transform = identity, angle = None, href = None, attrib = []\<rparr>
      [Node \<lparr>tag = ''use'', transform = identity, angle = None, href = Some [1], attrib = []\<rparr> [],
       Node \<lparr>tag = ''use'', transform = identity, angle = None, href = Some [0], attrib = []\<rparr> []],
     mutations = []\<rparr>"

definition cyclic_clone :: clone where
  "cyclic_clone = \<lparr>node = [0], clone_fill_angle = None, flip_angle = False\<rparr>"

text \<open>
  A chain of clones: \<open>clone_chain use_tag cmd tree k pos\<close> is the node reached from \<open>pos\<close>
  by \<open>k\<close> times taking the source of a clone, when every node left on the way is a clone
  and every reference resolves.
\<close>

fun clone_chain :: "string \<Rightarrow> (node \<Rightarrow> bool) \<Rightarrow> node \<Rightarrow> nat \<Rightarrow> path \<Rightarrow> path option" where
  "clone_chain use_tag cmd tree 0 pos = Some pos"
| "clone_chain use_tag cmd tree (Suc k) pos =
     (case get_node tree pos of
        None \<Rightarrow> None
      | Some n \<Rightarrow>
          if is_clone use_tag cmd n
          then (case get_clone_source tree pos of
                  None \<Rightarrow> None
                | Some src \<Rightarrow> clone_chain use_tag cmd tree k src)
          else None)"

text \<open>No node is the symbol of a command.\<close>

definition no_command :: "node \<Rightarrow> bool" where
  "no_command n = False"







text \<open>
  A rectangle for which the flattening gives two elements, a fill and a stroke, on the
  one node.
\<close>

definition shared_env :: "(string, unit, string) env" where
  "shared_env = \<lparr>EMBROIDERABLE_TAGS = [''path'', ''rect''], SVG_GROUP_TAG = ''g'',
     node_to_elements =
       (\<lambda>n. if tag (data n) = ''rect'' then [''FillStitch'', ''Stroke''] else []),
     element_to_stitch_groups = (\<lambda>cls n last_patch. Inr [cls]),
     get_cache_key = (\<lambda>cls n previous_stitch. cls)\<rparr>"

text \<open>
  A rectangle that declares the fill angle 90, and a document with a clone of it turned
  by a quarter; the duplicate is in place.
\<close>

definition angled_rect :: node where
  "angled_rect = Node \<lparr>tag = ''rect'', transform = identity, angle = Some (Numeric 90),
                        href = None, attrib = []\<rparr> []"

definition angled_doc1 :: document where
  "angled_doc1 = \<lparr>root = Node \<lparr>tag = ''svg'', transform = identity, angle = None, href = None, attrib = []\<rparr>
      [angled_rect,
       Node \<lparr>tag = ''use'', transform = Transform 0 1 (- 1) 0 0 0, angle = None, href = Some [0], attrib = []\<rparr> [],
       angled_rect],
     mutations = [Added [2]]\<rparr>"

section \<open>Properties of the angle extraction\<close>

lemma atan2_quadrants_right:
  assumes "- (pi / 2) < u" "u < pi / 2" "0 < r"
  shows "atan2 (r * sin u) (r * cos u) = u"
proof -
  have c: "0 < cos u" using assms by (simp add: cos_gt_zero_pi)
  have "r * sin u / (r * cos u) = tan u" using assms by (simp add: tan_def)
  then show ?thesis using c assms by (simp add: atan2_def arctan_tan)
qed

lemma atan2_upper_left:
  assumes "- (pi / 2) < u" "u \<le> 0" "0 < r"
  shows "atan2 (r * sin (u + pi)) (r * cos (u + pi)) = u + pi"
proof -
  have c: "0 < cos u" using assms by (simp add: cos_gt_zero_pi)
  have "0 \<le> sin (- u)" using assms by (intro sin_ge_zero) auto
  then have s: "sin u \<le> 0" by simp
  have q: "r * sin u / (r * cos u) = tan u" using assms by (simp add: tan_def)
  have "arctan (tan u) = u" using assms by (simp add: arctan_tan)
  then show ?thesis using c s assms q
    by (simp add: atan2_def mult_less_0_iff zero_le_mult_iff mult_le_0_iff)
qed

lemma atan2_lower_left:
  assumes "0 < u" "u < pi / 2" "0 < r"
  shows "atan2 (r * sin (u - pi)) (r * cos (u - pi)) = u - pi"
proof -
  have c: "0 < cos u" using assms by (simp add: cos_gt_zero_pi)
  have s: "0 < sin u" using assms by (intro sin_gt_zero) auto
  have sc: "sin (u - pi) = - sin u" "cos (u - pi) = - cos u"
    by (simp_all add: sin_diff cos_diff)
  have q: "r * sin u / (r * cos u) = tan u" using assms by (simp add: tan_def)
  have "arctan (tan u) = u" using assms by (simp add: arctan_tan)
  then show ?thesis using c s assms q unfolding sc
    by (simp add: atan2_def mult_less_0_iff zero_le_mult_iff mult_le_0_iff zero_less_mult_iff)
qed

lemma atan2_polar:
  assumes "- pi < t" "t \<le> pi" "0 < r"
  shows "atan2 (r * sin t) (r * cos t) = t"
proof -
  consider "- (pi / 2) < t \<and> t < pi / 2" | "t = pi / 2" | "t = - (pi / 2)"
    | "pi / 2 < t" | "t < - (pi / 2)" by linarith
  then show ?thesis
  proof cases
    case 1
    then show ?thesis using assms by (simp add: atan2_quadrants_right)
  next
    case 2
    have "atan2 (r * sin (pi / 2)) (r * cos (pi / 2)) = pi / 2"
      using assms(3) by (simp add: atan2_def)
    then show ?thesis unfolding 2 .
  next
    case 3
    have "atan2 (r * sin (- (pi / 2))) (r * cos (- (pi / 2))) = - (pi / 2)"
      using assms(3) by (simp add: atan2_def)
    then show ?thesis unfolding 3 .
  next
    case 4
    then have "- (pi / 2) < t - pi" "t - pi \<le> 0" using assms by auto
    from atan2_upper_left [OF this assms(3)] show ?thesis by simp
  next
    case 5
    then have "0 < t + pi" "t + pi < pi / 2" using assms by auto
    from atan2_lower_left [OF this assms(3)] show ?thesis by simp
  qed
qed

lemma atan2_range: "- pi < atan2 y x \<and> atan2 y x \<le> pi"
proof -
  have b: "- (pi / 2) < arctan (y / x)" "arctan (y / x) < pi / 2"
    by (rule arctan_lbound, rule arctan_ubound)
  have n: "x < 0 \<Longrightarrow> 0 \<le> y \<Longrightarrow> arctan (y / x) \<le> 0"
    by (simp add: arctan_le_zero_iff divide_le_0_iff)
  have p: "x < 0 \<Longrightarrow> y < 0 \<Longrightarrow> 0 < arctan (y / x)"
    by (simp add: zero_less_arctan_iff zero_less_divide_iff)
  show ?thesis using b n p pi_gt_zero unfolding atan2_def
    by (auto simp: not_less) 
qed


lemma rotate_transform_periodic:
  "rotate_transform (deg + 360 * real_of_int k) = rotate_transform deg"
proof -
  have r: "radians (deg + 360 * real_of_int k) = radians deg + 2 * pi * real_of_int k"
    by (simp add: radians_def field_simps)
  show ?thesis
    unfolding rotate_transform_def r
    by (simp add: cos_add sin_add cos_int_2pin sin_int_2pin)
qed

lemma angle_for_rotation_in_range:
  assumes "- 180 < deg" "deg \<le> 180"
  shows "angle_for_transform (rotate_transform deg) = Inr deg"
proof -
  let ?r = "radians deg"
  have "pi * (- 180) < pi * deg" "pi * deg \<le> pi * 180"
    using assms pi_gt_zero by (simp_all only: mult_less_cancel_left_pos mult_le_cancel_left_pos)
  then have rng: "- pi < ?r" "?r \<le> pi"
    by (simp_all add: radians_def field_simps)
  have nz: "\<not> (cos ?r = 0 \<and> sin ?r = 0)"
    using sin_zero_abs_cos_one [of ?r] by auto
  have fl: "\<not> is_transform_flipped (Transform (cos ?r) (sin ?r) (- sin ?r) (cos ?r) 0 0)"
    using sum_power2_ge_zero [of "cos ?r" "sin ?r"]
    by (simp add: is_transform_flipped_def power2_eq_square not_less)
  have a: "atan2 (sin ?r) (cos ?r) = ?r"
    using atan2_polar [OF rng, of 1] by simp
  have d: "degrees ?r = deg"
    by (simp add: degrees_def radians_def)
  show ?thesis
    using nz fl a d
    by (simp add: angle_for_transform_def rotate_transform_def apply_to_point_def
        vector_angle_def Let_def)
qed

lemma normalise_degrees:
  "\<exists>k::int. - 180 < deg + 360 * real_of_int k \<and> deg + 360 * real_of_int k \<le> 180"
proof -
  define k :: int where "k = \<lfloor>(180 - deg) / 360\<rfloor>"
  have "real_of_int k \<le> (180 - deg) / 360" "(180 - deg) / 360 < real_of_int k + 1"
    unfolding k_def by linarith+
  then have "- 180 < deg + 360 * real_of_int k \<and> deg + 360 * real_of_int k \<le> 180"
    by (simp add: field_simps)
  then show ?thesis ..
qed

text \<open>
  Claim C9. \<open>angle_for_transform\<close> returns 0 for the identity transform; for the pure
  rotation by \<open>deg\<close> degrees it returns \<open>deg\<close> when \<open>-180 < deg \<le> 180\<close>, and in
  general the representative of \<open>deg\<close> modulo 360 in the range \<open>(-180, 180]\<close> of
  \<open>atan2\<close>.
\<close>

theorem angle_for_transform_rotation:
  "angle_for_transform identity = Inr 0 \<and>
   (\<forall>deg. - 180 < deg \<and> deg \<le> 180 \<longrightarrow>
      angle_for_transform (rotate_transform deg) = Inr deg) \<and>
   (\<forall>deg. \<exists>k::int.
      - 180 < deg + 360 * real_of_int k \<and> deg + 360 * real_of_int k \<le> 180 \<and>
      angle_for_transform (rotate_transform deg) = Inr (deg + 360 * real_of_int k))"
proof (intro conjI allI impI)
  show "angle_for_transform identity = Inr 0"
    by (simp add: angle_for_transform_def identity_def is_transform_flipped_def
        apply_to_point_def vector_angle_def atan2_def degrees_def)
next
  fix deg :: real
  assume "- 180 < deg \<and> deg \<le> 180"
  then show "angle_for_transform (rotate_transform deg) = Inr deg"
    by (simp add: angle_for_rotation_in_range)
next
  fix deg :: real
  obtain k :: int where k: "- 180 < deg + 360 * real_of_int k" "deg + 360 * real_of_int k \<le> 180"
    using normalise_degrees by blast
  have "angle_for_transform (rotate_transform (deg + 360 * real_of_int k))
        = Inr (deg + 360 * real_of_int k)"
    using k by (rule angle_for_rotation_in_range)
  then have "angle_for_transform (rotate_transform deg) = Inr (deg + 360 * real_of_int k)"
    by (simp only: rotate_transform_periodic)
  with k show "\<exists>k::int. - 180 < deg + 360 * real_of_int k \<and> deg + 360 * real_of_int k \<le> 180 \<and>
      angle_for_transform (rotate_transform deg) = Inr (deg + 360 * real_of_int k)"
    by blast
qed

theorem angle_for_transform_rotation_witness:
  "- 180 < (90::real) \<and> (90::real) \<le> 180 \<and> angle_for_transform (rotate_transform 90) = Inr 90"
  using angle_for_transform_rotation by simp

section \<open>The tree operations\<close>

lemma get_node_append:
  "get_node t (p @ q) = (case get_node t p of None \<Rightarrow> None | Some n \<Rightarrow> get_node n q)"
  by (induction p arbitrary: t) auto

lemma update_node_append: "update_node g (p @ q) t = update_node (update_node g q) p t"
  by (induction p arbitrary: t) auto

lemma get_update_same: "get_node t p = Some n \<Longrightarrow> get_node (update_node g p t) p = Some (g n)"
  by (induction p arbitrary: t) (auto split: if_splits)

lemma update_update_same: "update_node g' p (update_node g p t) = update_node (g' \<circ> g) p t"
  by (induction p arbitrary: t) auto

lemma update_node_cong_at:
  "get_node t p = Some n \<Longrightarrow> g n = g' n \<Longrightarrow> update_node g p t = update_node g' p t"
  by (induction p arbitrary: t) (auto split: if_splits)

lemma update_node_id: "get_node t p = Some n \<Longrightarrow> g n = n \<Longrightarrow> update_node g p t = t"
  by (induction p arbitrary: t) (auto split: if_splits)

lemma update_node_invalid: "get_node t p = None \<Longrightarrow> update_node g p t = t"
  by (induction p arbitrary: t) (auto split: if_splits)

lemma with_child_update:
  assumes "get_node t parent = Some pn"
  shows "update_node g (parent @ length (children pn) # q) (with_child t parent d)
         = with_child t parent (update_node g q d)"
proof -
  let ?k = "length (children pn)"
  let ?app = "\<lambda>d n. Node (data n) (children n @ [d])"
  have "update_node g (parent @ ?k # q) (with_child t parent d)
        = update_node (update_node g (?k # q) \<circ> ?app d) parent t"
    by (simp add: with_child_def update_node_append update_update_same)
  also have "\<dots> = update_node (?app (update_node g q d)) parent t"
    by (rule update_node_cong_at [OF assms]) simp
  finally show ?thesis by (simp add: with_child_def)
qed

lemma with_child_remove:
  assumes "get_node t parent = Some pn"
  shows "update_node (\<lambda>n. Node (data n) (take (length (children pn)) (children n)
                                           @ drop (Suc (length (children pn))) (children n)))
           parent (with_child t parent d) = t"
proof -
  let ?k = "length (children pn)"
  let ?rem = "\<lambda>n. Node (data n) (take ?k (children n) @ drop (Suc ?k) (children n))"
  let ?app = "\<lambda>n. Node (data n) (children n @ [d])"
  have "update_node ?rem parent (with_child t parent d) = update_node (?rem \<circ> ?app) parent t"
    by (simp add: with_child_def update_update_same)
  also have "\<dots> = t"
    by (rule update_node_id [OF assms]) simp
  finally show ?thesis .
qed

lemma get_with_child_dup:
  assumes "get_node t parent = Some pn"
  shows "get_node (with_child t parent d) (parent @ length (children pn) # q) = get_node d q"
proof -
  have "get_node (with_child t parent d) parent = Some (Node (data pn) (children pn @ [d]))"
    unfolding with_child_def by (rule get_update_same [OF assms])
  then show ?thesis by (simp add: get_node_append)
qed

lemma get_node_dup_fresh:
  assumes "get_node t parent = Some pn"
  shows "get_node t (parent @ length (children pn) # q) = None"
  using assms by (simp add: get_node_append)

lemma get_with_child_old:
  "get_node t p = Some n \<Longrightarrow> \<exists>n'. get_node (with_child t parent d) p = Some n' \<and> data n' = data n"
proof (induction p arbitrary: t parent)
  case Nil
  then show ?case by (cases parent) (auto simp: with_child_def)
next
  case (Cons i p)
  show ?case
  proof (cases parent)
    case Nil
    with Cons.prems show ?thesis
      by (auto simp: with_child_def nth_append split: if_splits)
  next
    case (Cons j parent')
    show ?thesis
    proof (cases "i = j")
      case True
      from Cons.prems have v: "i < length (children t)" and g: "get_node (children t ! i) p = Some n"
        by (auto split: if_splits)
      from Cons.IH [OF g, of parent'] obtain n' where
        "get_node (with_child (children t ! i) parent' d) p = Some n'" "data n' = data n" by blast
      with v True \<open>parent = j # parent'\<close> show ?thesis
        by (auto simp: with_child_def)
    next
      case False
      with Cons.prems \<open>parent = j # parent'\<close> show ?thesis
        by (auto simp: with_child_def split: if_splits)
    qed
  qed
qed

lemma compose_along_with_child:
  "get_node t p \<noteq> None \<Longrightarrow> compose_along acc (with_child t parent d) p = compose_along acc t p"
proof (induction p arbitrary: t parent acc)
  case Nil
  then show ?case by simp
next
  case (Cons i p)
  from Cons.prems have v: "i < length (children t)" and g: "get_node (children t ! i) p \<noteq> None"
    by (auto split: if_splits)
  show ?case
  proof (cases parent)
    case Nil
    with v show ?thesis by (simp add: with_child_def nth_append)
  next
    case (Cons j parent')
    show ?thesis
    proof (cases "i = j")
      case True
      obtain n' where n': "get_node (with_child (children t ! i) parent' d) [] = Some n'"
          "data n' = data (children t ! i)"
        using get_with_child_old [of "children t ! i" "[]" "children t ! i" parent' d] by auto
      have "compose_along (matmul acc (transform (data (children t ! i))))
              (with_child (children t ! i) parent' d) p
            = compose_along (matmul acc (transform (data (children t ! i)))) (children t ! i) p"
        by (rule Cons.IH [OF g])
      with v True n' \<open>parent = j # parent'\<close> show ?thesis
        by (simp add: with_child_def)
    next
      case False
      with v \<open>parent = j # parent'\<close> show ?thesis by (simp add: with_child_def)
    qed
  qed
qed

lemma data_with_child_root: "data (with_child t parent d) = data t"
  by (cases parent) (simp_all add: with_child_def)

lemma composed_transform_with_child:
  "get_node t p \<noteq> None \<Longrightarrow> composed_transform (with_child t parent d) p = composed_transform t p"
  by (simp add: composed_transform_def compose_along_with_child data_with_child_root)

lemma compose_along_append:
  "compose_along acc t (p @ q) =
     (case compose_along acc t p of None \<Rightarrow> None
      | Some acc' \<Rightarrow> (case get_node t p of None \<Rightarrow> None | Some n \<Rightarrow> compose_along acc' n q))"
  by (induction p arbitrary: t acc) (auto split: option.splits)

lemma compose_along_valid:
  "get_node t p \<noteq> None \<Longrightarrow> compose_along acc t p \<noteq> None"
  by (induction p arbitrary: t acc) (auto split: if_splits)

lemma composed_transform_dup:
  assumes "get_node t parent = Some pn"
  shows "composed_transform (with_child t parent d) (parent @ [length (children pn)])
         = map_option (\<lambda>P. matmul P (transform (data d))) (composed_transform t parent)"
proof -
  have g: "get_node (with_child t parent d) parent = Some (Node (data pn) (children pn @ [d]))"
    unfolding with_child_def by (rule get_update_same [OF assms])
  have v: "get_node t parent \<noteq> None" using assms by simp
  obtain P where P: "compose_along (transform (data t)) t parent = Some P"
    using compose_along_valid [OF v] by blast
  then have "compose_along (transform (data t)) (with_child t parent d) parent = Some P"
    using compose_along_with_child [OF v] by simp
  then show ?thesis using g P
    by (simp add: composed_transform_def compose_along_append data_with_child_root)
qed

lemma subtree_forest_nodes_valid:
  "(\<forall>q m. (q, m) \<in> set (subtree_nodes n) \<longrightarrow> get_node n q = Some m)"
  "(\<forall>q m. (q, m) \<in> set (forest_nodes i cs) \<longrightarrow>
      (\<exists>j q'. q = (i + j) # q' \<and> j < length cs \<and> get_node (cs ! j) q' = Some m))"
proof (induction n and i cs rule: subtree_nodes_forest_nodes.induct)
  case (1 d cs)
  show ?case
  proof (intro allI impI)
    fix q m
    assume "(q, m) \<in> set (subtree_nodes (Node d cs))"
    then consider "q = [] \<and> m = Node d cs" | "(q, m) \<in> set (forest_nodes 0 cs)" by auto
    then show "get_node (Node d cs) q = Some m"
    proof cases
      case 1
      then show ?thesis by simp
    next
      case 2
      with "1.IH" obtain j q' where "q = j # q'" "j < length cs" "get_node (cs ! j) q' = Some m"
        by fastforce
      then show ?thesis by simp
    qed
  qed
next
  case (2 i)
  show ?case by simp
next
  case (3 i c cs)
  show ?case
  proof (intro allI impI)
    fix q m
    assume "(q, m) \<in> set (forest_nodes i (c # cs))"
    then consider q' where "q = i # q'" "(q', m) \<in> set (subtree_nodes c)"
      | "(q, m) \<in> set (forest_nodes (Suc i) cs)" by auto
    then show "\<exists>j q'. q = (i + j) # q' \<and> j < length (c # cs) \<and> get_node ((c # cs) ! j) q' = Some m"
    proof cases
      case 1
      with "3.IH"(1) have "get_node c q' = Some m" by blast
      with 1 have "q = (i + 0) # q' \<and> 0 < length (c # cs) \<and> get_node ((c # cs) ! 0) q' = Some m"
        by simp
      then show ?thesis by blast
    next
      case 2
      with "3.IH"(2) obtain j q' where "q = (Suc i + j) # q'" "j < length cs"
          "get_node (cs ! j) q' = Some m" by blast
      then have "q = (i + Suc j) # q' \<and> Suc j < length (c # cs) \<and> get_node ((c # cs) ! Suc j) q' = Some m"
        by simp
      then show ?thesis by blast
    qed
  qed
qed

lemma iterdescendants_valid:
  "(q, m) \<in> set (iterdescendants n) \<Longrightarrow> get_node n q = Some m"
proof -
  assume "(q, m) \<in> set (iterdescendants n)"
  then obtain j q' where "q = j # q'" "j < length (children n)"
      "get_node (children n ! j) q' = Some m"
    using subtree_forest_nodes_valid(2) [of 0 "children n"]
    by (fastforce simp: iterdescendants_def)
  then show ?thesis by simp
qed

lemma clone_to_elements_under:
  assumes "el \<in> set (clone_to_elements env tree pos)"
  shows "\<exists>q. element_node el = pos @ q \<and> get_node tree (pos @ q) \<noteq> None"
proof -
  from assms obtain n where n: "get_node tree pos = Some n"
    by (cases "get_node tree pos") (auto simp: clone_to_elements_def)
  from assms n consider "el \<in> set (elements_at env pos n)"
    | q child where "(q, child) \<in> set (iterdescendants n)" "el \<in> set (elements_at env (pos @ q) child)"
    by (auto simp: clone_to_elements_def split: if_splits)
  then show ?thesis
  proof cases
    case 1
    then have "element_node el = pos @ []" by (auto simp: elements_at_def)
    with n show ?thesis by (metis append_Nil2 option.distinct(1))
  next
    case 2
    then have e: "element_node el = pos @ q" by (auto simp: elements_at_def)
    from 2 have "get_node n q = Some child" by (simp add: iterdescendants_valid)
    with n have "get_node tree (pos @ q) \<noteq> None" by (simp add: get_node_append)
    with e show ?thesis by blast
  qed
qed

lemma get_update_data_only_other:
  "data_only g \<Longrightarrow> p \<noteq> q \<Longrightarrow>
     map_option data (get_node (update_node g q t) p) = map_option data (get_node t p)"
proof (induction q arbitrary: p t)
  case Nil
  then obtain i p' where "p = i # p'" by (cases p) auto
  with Nil show ?case by (simp add: data_only_def)
next
  case (Cons j q)
  show ?case
  proof (cases p)
    case Nil
    then show ?thesis by simp
  next
    case (Cons i p')
    show ?thesis
    proof (cases "i = j")
      case True
      with Cons.prems \<open>p = i # p'\<close> have "p' \<noteq> q" by simp
      from Cons.IH [OF Cons.prems(1) this] True \<open>p = i # p'\<close> show ?thesis by simp
    next
      case False
      with \<open>p = i # p'\<close> show ?thesis by simp
    qed
  qed
qed


lemma data_only_set_transform: "data_only (\<lambda>n. Node ((data n)\<lparr>transform := t\<rparr>) (children n))"
  by (simp add: data_only_def)

lemma data_only_set_angle: "data_only (\<lambda>n. Node ((data n)\<lparr>angle := a\<rparr>) (children n))"
  by (simp add: data_only_def)

section \<open>The materialization scope\<close>

lemma set_angle_scoped:
  assumes "get_node t parent = Some pn" "root doc = with_child t parent d"
  shows "root (set_angle (parent @ length (children pn) # q) x doc)
         = with_child t parent (update_node (\<lambda>n. Node ((data n)\<lparr>angle := Some (Numeric x)\<rparr>) (children n)) q d)"
    and "mutations (set_angle (parent @ length (children pn) # q) x doc)
         = mutations doc @ [SetAngle (parent @ length (children pn) # q)]"
  using assms by (simp_all add: set_angle_def with_child_update)

lemma set_transform_scoped:
  assumes "get_node t parent = Some pn" "root doc = with_child t parent d"
  shows "root (set_transform (parent @ length (children pn) # q) x doc)
         = with_child t parent (update_node (\<lambda>n. Node ((data n)\<lparr>transform := x\<rparr>) (children n)) q d)"
    and "mutations (set_transform (parent @ length (children pn) # q) x doc)
         = mutations doc @ [SetTransform (parent @ length (children pn) # q)]"
  using assms by (simp_all add: set_transform_def with_child_update)

lemma assign_angles_scoped:
  assumes "get_node t parent = Some pn"
    and "root doc = with_child t parent d"
    and "\<forall>el\<in>set els. \<exists>q. element_node el = parent @ length (children pn) # q"
  shows "\<exists>d' evs. root (fst (assign_angles c a els doc)) = with_child t parent d'
           \<and> mutations (fst (assign_angles c a els doc)) = mutations doc @ evs
           \<and> (\<forall>ev\<in>set evs. \<exists>q. ev = SetAngle (parent @ length (children pn) # q))"
  using assms(2,3)
proof (induction els arbitrary: doc d)
  case Nil
  then show ?case by auto
next
  case (Cons el els)
  from Cons.prems(2) obtain q where q: "element_node el = parent @ length (children pn) # q"
    by auto
  show ?case
  proof (cases "get_node (root doc) (element_node el)")
    case None
    with Cons.prems(1) show ?thesis by auto
  next
    case (Some n)
    show ?thesis
    proof (cases "element_angle c a (angle (data n))")
      case (Inl err)
      with Some Cons.prems(1) show ?thesis by auto
    next
      case (Inr x)
      let ?doc = "set_angle (element_node el) x doc"
      have r: "root ?doc = with_child t parent
                 (update_node (\<lambda>n. Node ((data n)\<lparr>angle := Some (Numeric x)\<rparr>) (children n)) q d)"
        and m: "mutations ?doc = mutations doc @ [SetAngle (parent @ length (children pn) # q)]"
        unfolding q using set_angle_scoped [OF assms(1) Cons.prems(1)] by blast+
      from Cons.prems(2) have "\<forall>el\<in>set els. \<exists>q. element_node el = parent @ length (children pn) # q"
        by simp
      from Cons.IH [OF r this] obtain d' evs where
        "root (fst (assign_angles c a els ?doc)) = with_child t parent d'"
        "mutations (fst (assign_angles c a els ?doc)) = mutations ?doc @ evs"
        "\<forall>ev\<in>set evs. \<exists>q. ev = SetAngle (parent @ length (children pn) # q)"
        by blast
      with Some Inr m have
        "root (fst (assign_angles c a (el # els) doc)) = with_child t parent d'
         \<and> mutations (fst (assign_angles c a (el # els) doc))
             = mutations doc @ (SetAngle (parent @ length (children pn) # q) # evs)
         \<and> (\<forall>ev\<in>set (SetAngle (parent @ length (children pn) # q) # evs).
               \<exists>q. ev = SetAngle (parent @ length (children pn) # q))"
        by simp
      then show ?thesis by blast
    qed
  qed
qed

lemma materialize_scoped:
  assumes "get_node t parent = Some pn"
    and "root doc = with_child t parent d"
  shows "\<exists>d' evs. root (fst (materialize env c src (parent @ [length (children pn)]) doc))
                    = with_child t parent d'
           \<and> mutations (fst (materialize env c src (parent @ [length (children pn)]) doc))
               = mutations doc @ evs
           \<and> (\<forall>ev\<in>set evs. scoped_write (parent @ [length (children pn)]) ev)"
proof -
  let ?dup = "parent @ [length (children pn)]"
  have keep: "\<exists>d' evs. root doc = with_child t parent d' \<and> mutations doc = mutations doc @ evs
                \<and> (\<forall>ev\<in>set evs. scoped_write ?dup ev)"
    using assms(2) by (intro exI [of _ d] exI [of _ "[]"]) simp
  show ?thesis
  proof (cases "get_node (root doc) (node c)")
    case None
    with keep show ?thesis by (simp add: materialize_def)
  next
    case (Some self_node)
    show ?thesis
    proof (cases "get_node (root doc) ?dup")
      case None
      with Some keep show ?thesis by (simp add: materialize_def)
    next
      case dn: (Some cloned_node)
      define T where "T = matmul (transform (data self_node)) (transform (data cloned_node))"
      define doc1 where "doc1 = set_transform ?dup T doc"
      define d1 where "d1 = update_node (\<lambda>n. Node ((data n)\<lparr>transform := T\<rparr>) (children n)) [] d"
      have r1: "root doc1 = with_child t parent d1"
        and m1: "mutations doc1 = mutations doc @ [SetTransform ?dup]"
        unfolding doc1_def d1_def
        using set_transform_scoped [OF assms(1,2), of "[]" T] by simp_all
      have w1: "scoped_write ?dup (SetTransform ?dup)"
        unfolding scoped_write_def by (metis append_Nil2)
      have keep1: "\<exists>d' evs. root doc1 = with_child t parent d' \<and> mutations doc1 = mutations doc @ evs
                \<and> (\<forall>ev\<in>set evs. scoped_write ?dup ev)"
        using r1 m1 w1 by (intro exI [of _ d1] exI [of _ "[SetTransform ?dup]"]) simp
      define at_res where "at_res = (if clone_fill_angle c = None
                      then (case angle_transform_of (root doc1) src ?dup of
                              Inl err \<Rightarrow> Inl err
                            | Inr atf \<Rightarrow> Inr (Some atf))
                      else Inr None)"
      have unf: "materialize env c src ?dup doc =
           (case at_res of
                  Inl err \<Rightarrow> (doc1, Inl err)
                | Inr angle_transform \<Rightarrow>
                    let elements = clone_to_elements env (root doc1) ?dup in
                    (case assign_angles c angle_transform elements doc1 of
                       (doc2, Some err) \<Rightarrow> (doc2, Inl err)
                     | (doc2, None) \<Rightarrow> (doc2, Inr elements)))"
        unfolding materialize_def at_res_def doc1_def T_def
        by (simp only: Some dn option.case Let_def)
      show ?thesis
      proof (cases at_res)
        case (Inl err)
        with unf keep1 show ?thesis by simp
      next
        case (Inr a)
        let ?els = "clone_to_elements env (root doc1) ?dup"
        have under: "\<forall>el\<in>set ?els. \<exists>q. element_node el = parent @ length (children pn) # q"
          using clone_to_elements_under [of _ env "root doc1" ?dup] by auto
        from assign_angles_scoped [OF assms(1) r1 under, of c a] obtain d' evs where
          a: "root (fst (assign_angles c a ?els doc1)) = with_child t parent d'"
             "mutations (fst (assign_angles c a ?els doc1)) = mutations doc1 @ evs"
             "\<forall>ev\<in>set evs. \<exists>q. ev = SetAngle (parent @ length (children pn) # q)"
          by blast
        have f: "fst (materialize env c src ?dup doc) = fst (assign_angles c a ?els doc1)"
          unfolding unf Inr by (simp add: Let_def split: prod.splits option.splits)
        have "\<forall>ev\<in>set evs. scoped_write ?dup ev"
          using a(3) unfolding scoped_write_def by fastforce
        with a m1 w1 have
          "root (fst (materialize env c src ?dup doc)) = with_child t parent d'
           \<and> mutations (fst (materialize env c src ?dup doc)) = mutations doc @ (SetTransform ?dup # evs)
           \<and> (\<forall>ev\<in>set (SetTransform ?dup # evs). scoped_write ?dup ev)"
          unfolding f by simp
        then show ?thesis by blast
      qed
    qed
  qed
qed

lemma add_scoped:
  assumes "get_node (root doc) parent = Some pn"
  shows "add parent child doc =
     Inr (parent @ [length (children pn)],
          doc\<lparr>root := with_child (root doc) parent child,
              mutations := mutations doc @ [Added (parent @ [length (children pn)])]\<rparr>)"
  using assms by (simp add: add_def with_child_def Let_def)

lemma remove_scoped:
  assumes "get_node t parent = Some pn" "root doc = with_child t parent d"
  shows "remove (parent @ [length (children pn)]) doc =
     Inr (doc\<lparr>root := t, mutations := mutations doc @ [Removed (parent @ [length (children pn)])]\<rparr>)"
proof -
  have "get_node (root doc) (parent @ [length (children pn)]) = Some d"
    using get_with_child_dup [OF assms(1), of d "[]"] assms(2) by simp
  then show ?thesis
    using with_child_remove [OF assms(1), of d] assms(2) by (simp add: remove_def)
qed

lemma get_node_parent:
  assumes "get_node t p = Some n" "p \<noteq> []"
  shows "\<exists>pn. get_node t (butlast p) = Some pn"
proof -
  have "get_node t (butlast p @ [last p]) = Some n" using assms by simp
  then show ?thesis by (auto simp: get_node_append split: option.splits)
qed

lemma get_clone_source_valid:
  assumes "get_clone_source tree pos = Some src"
  shows "\<exists>n sn. get_node tree pos = Some n \<and> href (data n) = Some src \<and> get_node tree src = Some sn"
  using assms by (auto simp: get_clone_source_def split: option.splits)

lemma clone_elements_eligible:
  assumes src: "get_clone_source (root doc) (node c) = Some src"
    and sn: "get_node (root doc) src = Some source_node"
    and elig: "tag (data source_node) \<in> set (EMBROIDERABLE_TAGS env)
               \<or> tag (data source_node) = SVG_GROUP_TAG env"
    and nonroot: "node c \<noteq> []"
  shows "\<exists>pn doc1 doc2 res evs.
     get_node (root doc) (butlast (node c)) = Some pn \<and>
     add (butlast (node c)) (deepcopy source_node) doc
        = Inr (butlast (node c) @ [length (children pn)], doc1) \<and>
     root doc1 = with_child (root doc) (butlast (node c)) source_node \<and>
     materialize env c src (butlast (node c) @ [length (children pn)]) doc1 = (doc2, res) \<and>
     (\<exists>d'. root doc2 = with_child (root doc) (butlast (node c)) d') \<and>
     mutations doc2 = mutations doc @ Added (butlast (node c) @ [length (children pn)]) # evs \<and>
     (\<forall>ev\<in>set evs. scoped_write (butlast (node c) @ [length (children pn)]) ev) \<and>
     clone_elements env c body doc =
       (\<lparr>root = root doc,
         mutations = mutations doc @ Added (butlast (node c) @ [length (children pn)]) # evs
                       @ [Removed (butlast (node c) @ [length (children pn)])]\<rparr>,
        (case res of Inl err \<Rightarrow> Inl err | Inr elements \<Rightarrow> body (root doc2) elements))"
proof -
  let ?parent = "butlast (node c)"
  from get_clone_source_valid [OF src] obtain n where n: "get_node (root doc) (node c) = Some n"
    by blast
  from get_node_parent [OF n nonroot] obtain pn where pn: "get_node (root doc) ?parent = Some pn"
    by blast
  let ?dup = "?parent @ [length (children pn)]"
  define doc1 where "doc1 = doc\<lparr>root := with_child (root doc) ?parent source_node,
              mutations := mutations doc @ [Added ?dup]\<rparr>"
  have a: "add ?parent (deepcopy source_node) doc = Inr (?dup, doc1)"
    unfolding doc1_def deepcopy_def by (rule add_scoped [OF pn])
  have r1: "root doc1 = with_child (root doc) ?parent source_node"
    and m1: "mutations doc1 = mutations doc @ [Added ?dup]"
    by (simp_all add: doc1_def)
  obtain doc2 res where mat: "materialize env c src ?dup doc1 = (doc2, res)"
    by (cases "materialize env c src ?dup doc1") auto
  from materialize_scoped [OF pn r1, of env c src] mat obtain d' evs where
    r2: "root doc2 = with_child (root doc) ?parent d'"
    and m2: "mutations doc2 = mutations doc1 @ evs"
    and w: "\<forall>ev\<in>set evs. scoped_write ?dup ev"
    by auto
  have rem: "remove ?dup doc2 = Inr (doc2\<lparr>root := root doc, mutations := mutations doc2 @ [Removed ?dup]\<rparr>)"
    by (rule remove_scoped [OF pn r2])
  have "clone_elements env c body doc =
       (doc2\<lparr>root := root doc, mutations := mutations doc2 @ [Removed ?dup]\<rparr>,
        (case res of Inl err \<Rightarrow> Inl err | Inr elements \<Rightarrow> body (root doc2) elements))"
    using src sn elig nonroot a mat rem by (auto simp: clone_elements_def)
  moreover have "doc2\<lparr>root := root doc, mutations := mutations doc2 @ [Removed ?dup]\<rparr>
     = \<lparr>root = root doc, mutations = mutations doc @ Added ?dup # evs @ [Removed ?dup]\<rparr>"
    using m1 m2 by simp
  ultimately show ?thesis using pn a r1 mat r2 m1 m2 w by auto
qed

lemma clone_elements_unchanged_or_scoped:
  "(\<exists>r. clone_elements env c body doc = (doc, r)) \<or>
   (\<exists>src source_node. get_clone_source (root doc) (node c) = Some src
       \<and> get_node (root doc) src = Some source_node
       \<and> (tag (data source_node) \<in> set (EMBROIDERABLE_TAGS env)
               \<or> tag (data source_node) = SVG_GROUP_TAG env)
       \<and> node c \<noteq> [])"
proof (cases "get_clone_source (root doc) (node c)")
  case None
  then show ?thesis by (simp add: clone_elements_def)
next
  case (Some src)
  from get_clone_source_valid [OF Some] obtain sn where sn: "get_node (root doc) src = Some sn"
    by blast
  show ?thesis
  proof (cases "(tag (data sn) \<in> set (EMBROIDERABLE_TAGS env)
               \<or> tag (data sn) = SVG_GROUP_TAG env) \<and> node c \<noteq> []")
    case True
    with Some sn show ?thesis by blast
  next
    case False
    with Some sn have "\<exists>r. clone_elements env c body doc = (doc, r)"
      by (auto simp: clone_elements_def)
    then show ?thesis ..
  qed
qed

lemmas model_defs =
  to_stitch_groups_def clone_elements_def get_clone_source_def add_def deepcopy_def
  materialize_def set_transform_def angle_transform_of_def composed_transform_def identity_def
  matmul_def neg_def clone_to_elements_def elements_at_def iterdescendants_def element_angle_def
  float_of_angle_def rotate_transform_def radians_def degrees_def apply_to_point_def
  vector_angle_def atan2_def set_angle_def remove_def element_call_def Let_def

text \<open>
  Claim C6. When the resolved source node is neither an embroiderable shape nor a group,
  the scope yields the empty element list and the document is left as it was: the same
  tree (so the same number of nodes) and no mutating call.
\<close>

theorem ineligible_source_no_mutation:
  assumes "get_clone_source (root doc) (node c) = Some src"
    and "get_node (root doc) src = Some source_node"
    and "tag (data source_node) \<notin> set (EMBROIDERABLE_TAGS env)"
    and "tag (data source_node) \<noteq> SVG_GROUP_TAG env"
  shows "clone_elements env c body doc = (doc, body (root doc) [])
       \<and> to_stitch_groups env c last_patch doc = (doc, Inr [])
       \<and> count_nodes (root (fst (to_stitch_groups env c last_patch doc))) = count_nodes (root doc)
       \<and> mutations (fst (to_stitch_groups env c last_patch doc)) = mutations doc"
  using assms by (simp add: clone_elements_def to_stitch_groups_def)

theorem ineligible_source_no_mutation_witness:
  "get_clone_source (root demo_text_doc) (node demo_clone) = Some [0]
   \<and> get_node (root demo_text_doc) [0] = Some (demo_shape ''text'' [])
   \<and> tag (data (demo_shape ''text'' [])) \<notin> set (EMBROIDERABLE_TAGS demo_env)
   \<and> tag (data (demo_shape ''text'' [])) \<noteq> SVG_GROUP_TAG demo_env
   \<and> to_stitch_groups demo_env demo_clone (None :: string option) demo_text_doc = (demo_text_doc, Inr [])"
proof -
  have h1: "get_clone_source (root demo_text_doc) (node demo_clone) = Some [0]"
    by (simp add: get_clone_source_def demo_text_doc_def demo_clone_def demo_shape_def)
  have h2: "get_node (root demo_text_doc) [0] = Some (demo_shape ''text'' [])"
    by (simp add: demo_text_doc_def)
  have h3: "tag (data (demo_shape ''text'' [])) \<notin> set (EMBROIDERABLE_TAGS demo_env)"
    by (simp add: demo_env_def demo_shape_def)
  have h4: "tag (data (demo_shape ''text'' [])) \<noteq> SVG_GROUP_TAG demo_env"
    by (simp add: demo_env_def demo_shape_def)
  from ineligible_source_no_mutation [OF h1 h2 h3 h4, of "\<lambda>_ _. Inr ()" None] h1 h2 h3 h4
  show ?thesis by simp
qed

text \<open>
  Claim C3. Over an eligible source the duplicate is inserted once and removed once, on
  every way out: the tree after \<open>to_stitch_groups\<close> is the tree before, the calls made
  are the insertion, writes, and one removal at the end, and the outcome is the outcome
  of the \<^verbatim>\<open>try\<close> block unchanged. In particular a failure raised by a drawable's stitch
  production is the failure the caller sees.
\<close>

theorem to_stitch_groups_removes_duplicate:
  assumes "get_clone_source (root doc) (node c) = Some src"
    and "get_node (root doc) src = Some source_node"
    and "tag (data source_node) \<in> set (EMBROIDERABLE_TAGS env)
         \<or> tag (data source_node) = SVG_GROUP_TAG env"
    and "node c \<noteq> []"
  shows "\<exists>dup doc1 doc2 res evs.
     add (butlast (node c)) (deepcopy source_node) doc = Inr (dup, doc1) \<and>
     materialize env c src dup doc1 = (doc2, res) \<and>
     root (fst (to_stitch_groups env c last_patch doc)) = root doc \<and>
     mutations (fst (to_stitch_groups env c last_patch doc))
       = mutations doc @ Added dup # evs @ [Removed dup] \<and>
     (\<forall>ev\<in>set evs. \<forall>p. ev \<noteq> Added p \<and> ev \<noteq> Removed p) \<and>
     snd (to_stitch_groups env c last_patch doc)
       = (case res of Inl err \<Rightarrow> Inl err
          | Inr elements \<Rightarrow> run_elements env (root doc2) elements last_patch []) \<and>
     (\<forall>elements err.
        res = Inr elements \<and> run_elements env (root doc2) elements last_patch [] = Inl err
        \<longrightarrow> snd (to_stitch_groups env c last_patch doc) = Inl err)"
proof -
  from clone_elements_eligible [OF assms,
      of "\<lambda>tree elements. run_elements env tree elements last_patch []"]
  obtain pn doc1 doc2 res evs where
    a: "add (butlast (node c)) (deepcopy source_node) doc
         = Inr (butlast (node c) @ [length (children pn)], doc1)"
    and m: "materialize env c src (butlast (node c) @ [length (children pn)]) doc1 = (doc2, res)"
    and w: "\<forall>ev\<in>set evs. scoped_write (butlast (node c) @ [length (children pn)]) ev"
    and r: "to_stitch_groups env c last_patch doc =
       (\<lparr>root = root doc,
         mutations = mutations doc @ Added (butlast (node c) @ [length (children pn)]) # evs
                       @ [Removed (butlast (node c) @ [length (children pn)])]\<rparr>,
        (case res of Inl err \<Rightarrow> Inl err
         | Inr elements \<Rightarrow> run_elements env (root doc2) elements last_patch []))"
    unfolding to_stitch_groups_def by blast
  have "\<forall>ev\<in>set evs. \<forall>p. ev \<noteq> Added p \<and> ev \<noteq> Removed p"
    using w by (auto simp: scoped_write_def)
  with a m r show ?thesis by (intro exI [of _ doc1] exI [of _ doc2] exI [of _ res] exI [of _ evs] exI) auto
qed

theorem to_stitch_groups_removes_duplicate_witness:
  "get_clone_source (root demo_doc) (node demo_clone) = Some [0]
   \<and> tag (data (Node \<lparr>tag = ''g'', transform = identity, angle = None, href = None, attrib = []\<rparr>
         [demo_shape ''rect'' [], demo_shape ''rect'' [(''id'', ''r2'')], demo_shape ''rect'' []]))
       = SVG_GROUP_TAG demo_env
   \<and> node demo_clone \<noteq> []
   \<and> root (fst (to_stitch_groups demo_env demo_clone None demo_doc)) = root demo_doc
   \<and> snd (to_stitch_groups demo_env demo_clone None demo_doc) = Inl (CollaboratorError ''boom'')
   \<and> mutations (fst (to_stitch_groups demo_env demo_clone None demo_doc))
       = [Added [2], SetTransform [2], SetAngle [2, 0], SetAngle [2, 1], SetAngle [2, 2], Removed [2]]"
proof -
  let ?g = "Node \<lparr>tag = ''g'', transform = identity, angle = None, href = None, attrib = []\<rparr>
         [demo_shape ''rect'' [], demo_shape ''rect'' [(''id'', ''r2'')], demo_shape ''rect'' []]"
  have h1: "get_clone_source (root demo_doc) (node demo_clone) = Some [0]"
    by (simp add: get_clone_source_def demo_doc_def demo_clone_def demo_shape_def)
  have h2: "get_node (root demo_doc) [0] = Some ?g"
    by (simp add: demo_doc_def)
  have h3: "tag (data ?g) \<in> set (EMBROIDERABLE_TAGS demo_env) \<or> tag (data ?g) = SVG_GROUP_TAG demo_env"
    by (simp add: demo_env_def)
  have h4: "node demo_clone \<noteq> []"
    by (simp add: demo_clone_def)
  have r: "root (fst (to_stitch_groups demo_env demo_clone None demo_doc)) = root demo_doc"
    using to_stitch_groups_removes_duplicate [OF h1 h2 h3 h4, of None] by blast
  have e: "to_stitch_groups demo_env demo_clone None demo_doc
      = (\<lparr>root = root demo_doc,
          mutations = [Added [2], SetTransform [2], SetAngle [2, 0], SetAngle [2, 1],
                       SetAngle [2, 2], Removed [2]]\<rparr>,
         Inl (CollaboratorError ''boom''))"
    by (simp add: model_defs demo_env_def demo_doc_def demo_clone_def demo_shape_def
        numeral_2_eq_2)
  show ?thesis using h1 h3 h4 r e by (simp add: demo_env_def)
qed

section \<open>The loop of to_stitch_groups\<close>

lemma last_patch_after_concat:
  "last_patch_after lp gs = (if concat gs = [] then lp else Some (last (concat gs)))"
  by (induction gs arbitrary: lp) auto

lemma run_elements_acc:
  "run_elements env tree els lp acc = Inr out \<longleftrightarrow>
   (\<exists>gs. length gs = length els \<and> out = acc @ concat gs \<and>
      (\<forall>i<length els. element_call env tree (els ! i) (last_patch_after lp (take i gs)) = Inr (gs ! i)))"
proof (induction els arbitrary: lp acc)
  case Nil
  then show ?case by auto
next
  case (Cons el els)
  show ?case
  proof (cases "element_call env tree el lp")
    case (Inl err)
    have "\<not> (\<exists>gs. length gs = length (el # els) \<and> out = acc @ concat gs \<and>
      (\<forall>i<length (el # els). element_call env tree ((el # els) ! i) (last_patch_after lp (take i gs)) = Inr (gs ! i)))"
    proof
      assume "\<exists>gs. length gs = length (el # els) \<and> out = acc @ concat gs \<and>
      (\<forall>i<length (el # els). element_call env tree ((el # els) ! i) (last_patch_after lp (take i gs)) = Inr (gs ! i))"
      then obtain gs where "\<forall>i<length (el # els). element_call env tree ((el # els) ! i) (last_patch_after lp (take i gs)) = Inr (gs ! i)"
        by blast
      then have "0 < length (el # els) \<longrightarrow> element_call env tree ((el # els) ! 0) (last_patch_after lp (take 0 gs)) = Inr (gs ! 0)"
        by (rule spec)
      with Inl show False by simp
    qed
    with Inl show ?thesis by simp
  next
    case (Inr g)
    define lp' where "lp' = (if g = [] then lp else Some (last g))"
    have step: "run_elements env tree (el # els) lp acc = run_elements env tree els lp' (acc @ g)"
      using Inr by (simp add: lp'_def)
    have "(\<exists>gs'. length gs' = length els \<and> out = (acc @ g) @ concat gs' \<and>
            (\<forall>i<length els. element_call env tree (els ! i) (last_patch_after lp' (take i gs')) = Inr (gs' ! i)))
       \<longleftrightarrow> (\<exists>gs. length gs = length (el # els) \<and> out = acc @ concat gs \<and>
            (\<forall>i<length (el # els). element_call env tree ((el # els) ! i) (last_patch_after lp (take i gs)) = Inr (gs ! i)))"
      (is "?L \<longleftrightarrow> ?R")
    proof
      assume ?L
      then obtain gs' where gs': "length gs' = length els" "out = (acc @ g) @ concat gs'"
        "\<forall>i<length els. element_call env tree (els ! i) (last_patch_after lp' (take i gs')) = Inr (gs' ! i)"
        by blast
      have "\<forall>i<length (el # els). element_call env tree ((el # els) ! i)
               (last_patch_after lp (take i (g # gs'))) = Inr ((g # gs') ! i)"
      proof (intro allI impI)
        fix i assume "i < length (el # els)"
        then show "element_call env tree ((el # els) ! i)
               (last_patch_after lp (take i (g # gs'))) = Inr ((g # gs') ! i)"
          using gs'(3) Inr by (cases i) (auto simp: lp'_def)
      qed
      with gs'(1,2) have "length (g # gs') = length (el # els) \<and> out = acc @ concat (g # gs') \<and>
         (\<forall>i<length (el # els). element_call env tree ((el # els) ! i)
               (last_patch_after lp (take i (g # gs'))) = Inr ((g # gs') ! i))"
        by simp
      then show ?R by blast
    next
      assume ?R
      then obtain gs where gs: "length gs = length (el # els)" "out = acc @ concat gs"
        "\<forall>i<length (el # els). element_call env tree ((el # els) ! i) (last_patch_after lp (take i gs)) = Inr (gs ! i)"
        by blast
      from gs(1) obtain g0 gs' where c: "gs = g0 # gs'" by (cases gs) auto
      from gs(3) have "0 < length (el # els) \<longrightarrow> element_call env tree ((el # els) ! 0) (last_patch_after lp (take 0 gs)) = Inr (gs ! 0)"
        by (rule spec)
      with Inr c have g0: "g0 = g" by simp
      have "\<forall>i<length els. element_call env tree (els ! i) (last_patch_after lp' (take i gs')) = Inr (gs' ! i)"
      proof (intro allI impI)
        fix i assume "i < length els"
        then have "Suc i < length (el # els)" by simp
        with gs(3) have "element_call env tree ((el # els) ! Suc i) (last_patch_after lp (take (Suc i) gs)) = Inr (gs ! Suc i)"
          by blast
        then show "element_call env tree (els ! i) (last_patch_after lp' (take i gs')) = Inr (gs' ! i)"
          using c g0 by (simp add: lp'_def)
      qed
      with gs(1,2) c g0 have "length gs' = length els \<and> out = (acc @ g) @ concat gs' \<and>
            (\<forall>i<length els. element_call env tree (els ! i) (last_patch_after lp' (take i gs')) = Inr (gs' ! i))"
        by simp
      then show ?L by blast
    qed
    with Cons.IH [of lp' "acc @ g"] step show ?thesis by simp
  qed
qed

lemma last_patch_after_recent:
  assumes "j < i" "i \<le> length gs" "gs ! j \<noteq> []" "\<forall>k. j < k \<and> k < i \<longrightarrow> gs ! k = []"
  shows "last_patch_after lp (take i gs) = Some (last (gs ! j))"
proof -
  define xs where "xs = take i gs"
  have l: "j < length xs" and n: "length xs = i" using assms(1,2) by (simp_all add: xs_def)
  have xj: "xs ! j = gs ! j" using assms(1) by (simp add: xs_def)
  have "\<forall>g\<in>set (drop (Suc j) xs). g = []"
  proof
    fix g assume "g \<in> set (drop (Suc j) xs)"
    then obtain k where k: "k < length (drop (Suc j) xs)" "g = drop (Suc j) xs ! k"
      by (metis in_set_conv_nth)
    from k(1) n have b: "Suc j + k < i" by simp
    then have "drop (Suc j) xs ! k = xs ! (Suc j + k)" using n by simp
    also have "\<dots> = gs ! (Suc j + k)" using b by (simp add: xs_def)
    also have "\<dots> = []" using b assms(4) by simp
    finally show "g = []" using k(2) by simp
  qed
  then have e: "concat (drop (Suc j) xs) = []" by simp
  have "concat xs = concat (take j xs @ xs ! j # drop (Suc j) xs)"
    by (rule arg_cong [OF id_take_nth_drop [OF l]])
  also have "\<dots> = concat (take j xs) @ xs ! j" using e by simp
  finally have "concat xs = concat (take j xs) @ gs ! j" by (simp only: xj)
  with assms(3) have "concat xs \<noteq> [] \<and> last (concat xs) = last (gs ! j)" by simp
  then have "last_patch_after lp xs = Some (last (gs ! j))"
    unfolding last_patch_after_concat by (simp only: if_False)
  then show ?thesis by (simp only: xs_def)
qed

text \<open>
  Claim C7. The loop of \<open>to_stitch_groups\<close> succeeds with output \<open>out\<close> exactly when the
  drawables, called in order, each with the last patch left by the drawables before it,
  yield group lists whose concatenation is \<open>out\<close>. The last patch handed to a drawable
  is the last group produced so far (the caller's last patch when nothing was produced),
  which is the last group of the most recent drawable that produced any. Over an eligible
  source \<open>to_stitch_groups\<close> returns the result of this loop on the materialized elements.
\<close>

theorem to_stitch_groups_pipeline:
  "(run_elements env tree els last_patch [] = Inr out \<longleftrightarrow>
      (\<exists>gs. length gs = length els \<and> out = concat gs \<and>
         (\<forall>i<length els. element_call env tree (els ! i) (last_patch_after last_patch (take i gs))
                          = Inr (gs ! i))))
   \<and> last_patch_after last_patch gs
       = (if concat gs = [] then last_patch else Some (last (concat gs)))
   \<and> (\<forall>i j. j < i \<and> i \<le> length gs \<and> gs ! j \<noteq> [] \<and> (\<forall>k. j < k \<and> k < i \<longrightarrow> gs ! k = [])
         \<longrightarrow> last_patch_after last_patch (take i gs) = Some (last (gs ! j)))
   \<and> (\<forall>src source_node dup doc1 doc2 elements.
         get_clone_source (root doc) (node c) = Some src
         \<and> get_node (root doc) src = Some source_node
         \<and> (tag (data source_node) \<in> set (EMBROIDERABLE_TAGS env)
              \<or> tag (data source_node) = SVG_GROUP_TAG env)
         \<and> node c \<noteq> []
         \<and> add (butlast (node c)) (deepcopy source_node) doc = Inr (dup, doc1)
         \<and> materialize env c src dup doc1 = (doc2, Inr elements)
         \<longrightarrow> snd (to_stitch_groups env c last_patch doc)
               = run_elements env (root doc2) elements last_patch [])"
proof (intro conjI allI impI)
  show "run_elements env tree els last_patch [] = Inr out \<longleftrightarrow>
      (\<exists>gs. length gs = length els \<and> out = concat gs \<and>
         (\<forall>i<length els. element_call env tree (els ! i) (last_patch_after last_patch (take i gs))
                          = Inr (gs ! i)))"
    using run_elements_acc [of env tree els last_patch "[]" out] by simp
next
  show "last_patch_after last_patch gs
       = (if concat gs = [] then last_patch else Some (last (concat gs)))"
    by (rule last_patch_after_concat)
next
  fix i j
  assume "j < i \<and> i \<le> length gs \<and> gs ! j \<noteq> [] \<and> (\<forall>k. j < k \<and> k < i \<longrightarrow> gs ! k = [])"
  then show "last_patch_after last_patch (take i gs) = Some (last (gs ! j))"
    using last_patch_after_recent by blast
next
  fix src source_node dup doc1 doc2 elements
  assume h: "get_clone_source (root doc) (node c) = Some src
         \<and> get_node (root doc) src = Some source_node
         \<and> (tag (data source_node) \<in> set (EMBROIDERABLE_TAGS env)
              \<or> tag (data source_node) = SVG_GROUP_TAG env)
         \<and> node c \<noteq> []
         \<and> add (butlast (node c)) (deepcopy source_node) doc = Inr (dup, doc1)
         \<and> materialize env c src dup doc1 = (doc2, Inr elements)"
  then have a: "get_clone_source (root doc) (node c) = Some src"
    and b: "get_node (root doc) src = Some source_node"
    and e: "tag (data source_node) \<in> set (EMBROIDERABLE_TAGS env)
              \<or> tag (data source_node) = SVG_GROUP_TAG env"
    and n: "node c \<noteq> []" by blast+
  from clone_elements_eligible [OF a b e n,
      of "\<lambda>tree elements. run_elements env tree elements last_patch []"] h
  show "snd (to_stitch_groups env c last_patch doc)
               = run_elements env (root doc2) elements last_patch []"
    by (auto simp: to_stitch_groups_def)
qed

theorem to_stitch_groups_pipeline_witness:
  "run_elements pipeline_env pipeline_tree
      [Element ''FillStitch'' [0], Element ''FillStitch'' [1], Element ''FillStitch'' [2]] None []
     = Inr [''a'', ''b'', ''after-b'']
   \<and> (0::nat) < 2 \<and> 2 \<le> length [[''a'', ''b''], [], [''after-b'']]
   \<and> [[''a'', ''b''], [], [''after-b'']] ! 0 \<noteq> []
   \<and> last_patch_after None (take 2 [[''a'', ''b''], [], [''after-b'']]) = Some ''b''"
proof -
  have r: "run_elements pipeline_env pipeline_tree
      [Element ''FillStitch'' [0], Element ''FillStitch'' [1], Element ''FillStitch'' [2]] None []
     = Inr [''a'', ''b'', ''after-b'']"
    by (simp add: element_call_def pipeline_env_def pipeline_tree_def demo_shape_def)
  have k: "\<forall>k. (0::nat) < k \<and> k < 2 \<longrightarrow> [[''a'', ''b''], [], [''after-b'']] ! k = []"
  proof (intro allI impI)
    fix k :: nat assume "0 < k \<and> k < 2"
    then have "k = 1" by simp
    then show "[[''a'', ''b''], [], [''after-b'']] ! k = []" by simp
  qed
  have "last_patch_after None (take 2 [[''a'', ''b''], [], [''after-b'']])
        = Some (last ([[''a'', ''b''], [], [''after-b'']] ! 0))"
    using to_stitch_groups_pipeline [of pipeline_env pipeline_tree "[]" None "[]"
        "[[''a'', ''b''], [], [''after-b'']]" demo_doc demo_clone] k
    by (elim conjE) (drule spec [of _ "2::nat"], drule spec [of _ "0::nat"], simp)
  with r show ?thesis by simp
qed

section \<open>The fill angles\<close>

lemma set_angle_get_same:
  "get_node (root doc) p = Some n \<Longrightarrow>
   get_node (root (set_angle p x doc)) p
     = Some (Node ((data n)\<lparr>angle := Some (Numeric x)\<rparr>) (children n))"
  by (simp add: set_angle_def get_update_same)

lemma set_angle_get_other:
  "p' \<noteq> p \<Longrightarrow>
   map_option data (get_node (root (set_angle p x doc)) p') = map_option data (get_node (root doc) p')"
  by (simp add: set_angle_def get_update_data_only_other data_only_set_angle)

lemma set_transform_get_same:
  "get_node (root doc) p = Some n \<Longrightarrow>
   get_node (root (set_transform p t doc)) p
     = Some (Node ((data n)\<lparr>transform := t\<rparr>) (children n))"
  by (simp add: set_transform_def get_update_same)

lemma set_transform_get_other:
  "p' \<noteq> p \<Longrightarrow>
   map_option data (get_node (root (set_transform p t doc)) p') = map_option data (get_node (root doc) p')"
  by (simp add: set_transform_def get_update_data_only_other data_only_set_transform)

lemma set_transform_keeps_angle:
  "map_option (angle \<circ> data) (get_node (root (set_transform p t doc)) p')
   = map_option (angle \<circ> data) (get_node (root doc) p')"
proof (cases "p' = p")
  case True
  show ?thesis
  proof (cases "get_node (root doc) p")
    case None
    then show ?thesis using True by (simp add: set_transform_def update_node_invalid)
  next
    case (Some n)
    then show ?thesis using True by (simp add: set_transform_get_same)
  qed
next
  case False
  from set_transform_get_other [OF False, of t doc]
  have "map_option angle (map_option data (get_node (root (set_transform p t doc)) p'))
        = map_option angle (map_option data (get_node (root doc) p'))" by simp
  then show ?thesis by (simp add: option.map_comp)
qed

lemma assign_angles_append:
  "assign_angles c a (xs @ ys) doc =
     (case assign_angles c a xs doc of
        (d, Some err) \<Rightarrow> (d, Some err)
      | (d, None) \<Rightarrow> assign_angles c a ys d)"
  by (induction xs arbitrary: doc) (auto split: option.splits sum.splits)

lemma assign_angles_other:
  "p \<notin> element_node ` set els \<Longrightarrow>
   map_option data (get_node (root (fst (assign_angles c a els doc))) p)
     = map_option data (get_node (root doc) p)"
proof (induction els arbitrary: doc)
  case Nil
  then show ?case by simp
next
  case (Cons el els)
  then have ne: "p \<noteq> element_node el" and rest: "p \<notin> element_node ` set els" by auto
  show ?case
  proof (cases "get_node (root doc) (element_node el)")
    case None
    then show ?thesis by simp
  next
    case (Some n)
    show ?thesis
    proof (cases "element_angle c a (angle (data n))")
      case (Inl err)
      with Some show ?thesis by simp
    next
      case (Inr x)
      with Some Cons.IH [OF rest, of "set_angle (element_node el) x doc"]
        set_angle_get_other [OF ne, of x doc]
      show ?thesis by simp
    qed
  qed
qed

lemma assign_override_keeps:
  assumes "clone_fill_angle c = Some v"
    and "get_node (root doc) p = Some n"
    and "angle (data n) = Some (Numeric (if flip_angle c then - v else v))"
  shows "\<exists>n'. get_node (root (fst (assign_angles c a els doc))) p = Some n'
           \<and> angle (data n') = Some (Numeric (if flip_angle c then - v else v))"
  using assms(2,3)
proof (induction els arbitrary: doc n)
  case Nil
  then show ?case by simp
next
  case (Cons el els)
  let ?w = "if flip_angle c then - v else v"
  show ?case
  proof (cases "get_node (root doc) (element_node el)")
    case None
    with Cons.prems show ?thesis by simp
  next
    case (Some m)
    have ea: "element_angle c a (angle (data m)) = Inr ?w"
      using assms(1) by (simp add: element_angle_def)
    let ?doc = "set_angle (element_node el) ?w doc"
    have "\<exists>n1. get_node (root ?doc) p = Some n1 \<and> angle (data n1) = Some (Numeric ?w)"
    proof (cases "p = element_node el")
      case True
      with Some show ?thesis by (simp add: set_angle_get_same)
    next
      case False
      from set_angle_get_other [OF False, of ?w doc] Cons.prems
      show ?thesis by (cases "get_node (root ?doc) p") auto
    qed
    then obtain n1 where "get_node (root ?doc) p = Some n1" "angle (data n1) = Some (Numeric ?w)"
      by blast
    from Cons.IH [OF this] Some ea show ?thesis by simp
  qed
qed

lemma assign_override:
  assumes "clone_fill_angle c = Some v"
    and "\<forall>el\<in>set els. get_node (root doc) (element_node el) \<noteq> None"
  shows "snd (assign_angles c a els doc) = None
       \<and> (\<forall>el\<in>set els. \<exists>n'. get_node (root (fst (assign_angles c a els doc))) (element_node el) = Some n'
              \<and> angle (data n') = Some (Numeric (if flip_angle c then - v else v)))"
  using assms(2)
proof (induction els arbitrary: doc)
  case Nil
  then show ?case by simp
next
  case (Cons el els)
  let ?w = "if flip_angle c then - v else v"
  from Cons.prems obtain m where m: "get_node (root doc) (element_node el) = Some m" by auto
  have ea: "element_angle c a (angle (data m)) = Inr ?w"
    using assms(1) by (simp add: element_angle_def)
  let ?doc = "set_angle (element_node el) ?w doc"
  have step: "assign_angles c a (el # els) doc = assign_angles c a els ?doc"
    using m ea by simp
  have valid: "\<forall>e\<in>set els. get_node (root ?doc) (element_node e) \<noteq> None"
  proof
    fix e assume "e \<in> set els"
    with Cons.prems have v: "get_node (root doc) (element_node e) \<noteq> None" by simp
    show "get_node (root ?doc) (element_node e) \<noteq> None"
    proof (cases "element_node e = element_node el")
      case True
      with m show ?thesis by (simp add: set_angle_get_same)
    next
      case False
      from set_angle_get_other [OF False, of ?w doc] v show ?thesis by auto
    qed
  qed
  have here: "get_node (root ?doc) (element_node el)
                = Some (Node ((data m)\<lparr>angle := Some (Numeric ?w)\<rparr>) (children m))"
    using m by (rule set_angle_get_same)
  have "\<exists>n'. get_node (root (fst (assign_angles c a els ?doc))) (element_node el) = Some n'
           \<and> angle (data n') = Some (Numeric ?w)"
    by (rule assign_override_keeps [OF assms(1) here]) simp
  with Cons.IH [OF valid] show ?case unfolding step by simp
qed

lemma assign_derived_distinct:
  assumes "assign_angles c a els doc = (doc', None)"
    and "distinct (map element_node els)"
  shows "\<forall>el\<in>set els. \<exists>n n' x. get_node (root doc) (element_node el) = Some n
           \<and> element_angle c a (angle (data n)) = Inr x
           \<and> get_node (root doc') (element_node el) = Some n'
           \<and> angle (data n') = Some (Numeric x)"
  using assms
proof (induction els arbitrary: doc)
  case Nil
  then show ?case by simp
next
  case (Cons el els)
  from Cons.prems(1) obtain m where m: "get_node (root doc) (element_node el) = Some m"
    by (cases "get_node (root doc) (element_node el)") auto
  from Cons.prems(1) m obtain x where x: "element_angle c a (angle (data m)) = Inr x"
    by (cases "element_angle c a (angle (data m))") auto
  let ?doc = "set_angle (element_node el) x doc"
  from Cons.prems(1) m x have rest: "assign_angles c a els ?doc = (doc', None)" by simp
  from Cons.prems(2) have d: "distinct (map element_node els)"
    and fresh: "element_node el \<notin> element_node ` set els" by auto
  have here: "get_node (root ?doc) (element_node el)
                = Some (Node ((data m)\<lparr>angle := Some (Numeric x)\<rparr>) (children m))"
    using m by (rule set_angle_get_same)
  from assign_angles_other [OF fresh, of c a ?doc] rest here
  obtain n' where n': "get_node (root doc') (element_node el) = Some n'"
      "data n' = (data m)\<lparr>angle := Some (Numeric x)\<rparr>"
    by (cases "get_node (root doc') (element_node el)") auto
  have first: "\<exists>n n' x. get_node (root doc) (element_node el) = Some n
           \<and> element_angle c a (angle (data n)) = Inr x
           \<and> get_node (root doc') (element_node el) = Some n'
           \<and> angle (data n') = Some (Numeric x)"
    using m x n' by simp
  have others: "\<exists>n n' x. get_node (root doc) (element_node e) = Some n
           \<and> element_angle c a (angle (data n)) = Inr x
           \<and> get_node (root doc') (element_node e) = Some n'
           \<and> angle (data n') = Some (Numeric x)" if "e \<in> set els" for e
  proof -
    from Cons.IH [OF rest d] that obtain n1 n2 y where
      a: "get_node (root ?doc) (element_node e) = Some n1"
         "element_angle c a (angle (data n1)) = Inr y"
         "get_node (root doc') (element_node e) = Some n2"
         "angle (data n2) = Some (Numeric y)" by blast
    from that fresh have ne: "element_node e \<noteq> element_node el"
      by (metis imageI)
    from set_angle_get_other [OF ne, of x doc] a(1)
    obtain n0 where "get_node (root doc) (element_node e) = Some n0" "data n0 = data n1"
      by (cases "get_node (root doc) (element_node e)") auto
    with a show ?thesis by simp
  qed
  from first others show ?case by auto
qed

lemma materialize_unfold:
  assumes "get_node (root doc1) (node c) = Some self_node"
    and "get_node (root doc1) dup = Some cloned_node"
  shows "materialize env c src dup doc1 =
     (case (if clone_fill_angle c = None
            then (case angle_transform_of
                         (root (set_transform dup
                            (matmul (transform (data self_node)) (transform (data cloned_node))) doc1))
                         src dup of
                    Inl err \<Rightarrow> Inl err
                  | Inr atf \<Rightarrow> Inr (Some atf))
            else Inr None) of
        Inl err \<Rightarrow> (set_transform dup
                       (matmul (transform (data self_node)) (transform (data cloned_node))) doc1, Inl err)
      | Inr angle_transform \<Rightarrow>
          (case assign_angles c angle_transform
                  (clone_to_elements env
                     (root (set_transform dup
                        (matmul (transform (data self_node)) (transform (data cloned_node))) doc1)) dup)
                  (set_transform dup
                     (matmul (transform (data self_node)) (transform (data cloned_node))) doc1) of
             (doc2, Some err) \<Rightarrow> (doc2, Inl err)
           | (doc2, None) \<Rightarrow>
               (doc2, Inr (clone_to_elements env
                     (root (set_transform dup
                        (matmul (transform (data self_node)) (transform (data cloned_node))) doc1)) dup))))"
  unfolding materialize_def by (simp only: assms option.case Let_def)

lemma element_angle_flip:
  "element_angle (c\<lparr>flip_angle := True\<rparr>) a x
     = (case element_angle (c\<lparr>flip_angle := False\<rparr>) a x of
          Inl err \<Rightarrow> Inl err | Inr y \<Rightarrow> Inr (- y))"
  by (simp add: element_angle_def split: option.splits sum.splits)

lemma element_angle_derived:
  assumes "clone_fill_angle c = None" "element_angle c (Some atf) v = Inr x"
  shows "\<exists>a_local r. float_of_angle v = Inr a_local
           \<and> vector_angle (apply_to_point (matmul atf (rotate_transform (- a_local))) (1, 0)) = Some r
           \<and> x = (if flip_angle c then - (- degrees r) else - degrees r)"
  using assms by (auto simp: element_angle_def split: option.splits sum.splits if_splits)

lemma radians_quarter: "radians 90 = pi / 2" "radians (- 90) = - (pi / 2)"
  by (simp_all add: radians_def)

lemma degrees_values: "degrees pi = 180" "degrees (pi / 2) = 90" "degrees 0 = 0"
  by (simp_all add: degrees_def)

lemma element_angle_derived_declared:
  assumes "clone_fill_angle c = None" "element_angle c (Some atf) v = Inr x"
  shows "\<exists>a_local r. (v = None \<and> a_local = 0 \<or> v = Some (Numeric a_local))
           \<and> vector_angle (apply_to_point (matmul atf (rotate_transform (- a_local))) (1, 0)) = Some r
           \<and> x = (if flip_angle c then - (- degrees r) else - degrees r)"
proof -
  from element_angle_derived [OF assms] obtain a_local r where
    f: "float_of_angle v = Inr a_local"
    and r: "vector_angle (apply_to_point (matmul atf (rotate_transform (- a_local))) (1, 0)) = Some r"
           "x = (if flip_angle c then - (- degrees r) else - degrees r)"
    by blast
  from f have "v = None \<and> a_local = 0 \<or> v = Some (Numeric a_local)"
    by (auto simp: float_of_angle_def split: option.splits attr_value.splits)
  with r show ?thesis by blast
qed

lemma clone_to_elements_valid:
  "el \<in> set (clone_to_elements env tree pos) \<Longrightarrow> get_node tree (element_node el) \<noteq> None"
  using clone_to_elements_under [of el env tree pos] by auto

text \<open>
  Claim C4. With \<open>clone_fill_angle\<close> set to \<open>v\<close> the materialization cannot fail in the
  angle loop, and every drawable of the copy ends with the fill angle \<open>v\<close>, negated when
  \<open>flip_angle\<close> is set, whatever its own angle and whatever the transforms. In both modes
  the angle with \<open>flip_angle\<close> is the negation of the angle without it. With 45 and
  \<open>flip_angle\<close> the angle is -45.
\<close>

theorem override_fill_angle:
  "(clone_fill_angle c = Some v
      \<and> get_node (root doc1) (node c) = Some self_node
      \<and> get_node (root doc1) dup = Some cloned_node
    \<longrightarrow> (\<exists>doc2 els. materialize env c src dup doc1 = (doc2, Inr els)
           \<and> (\<forall>el\<in>set els. \<exists>n'. get_node (root doc2) (element_node el) = Some n'
                  \<and> angle (data n') = Some (Numeric (if flip_angle c then - v else v)))))
   \<and> element_angle (c\<lparr>flip_angle := True\<rparr>) a x
       = (case element_angle (c\<lparr>flip_angle := False\<rparr>) a x of
            Inl err \<Rightarrow> Inl err | Inr y \<Rightarrow> Inr (- y))
   \<and> element_angle \<lparr>node = p, clone_fill_angle = Some 45, flip_angle = True\<rparr> a x = Inr (- 45)"
proof (intro conjI impI)
  assume h: "clone_fill_angle c = Some v
      \<and> get_node (root doc1) (node c) = Some self_node
      \<and> get_node (root doc1) dup = Some cloned_node"
  define docT where "docT = set_transform dup
      (matmul (transform (data self_node)) (transform (data cloned_node))) doc1"
  define els where "els = clone_to_elements env (root docT) dup"
  have valid: "\<forall>el\<in>set els. get_node (root docT) (element_node el) \<noteq> None"
    unfolding els_def using clone_to_elements_valid by blast
  from h have v: "clone_fill_angle c = Some v" by blast
  obtain d2 r where d2: "assign_angles c None els docT = (d2, r)"
    by (cases "assign_angles c None els docT") auto
  from assign_override [OF v valid, of None] d2
  have s: "r = None"
    and a: "\<forall>el\<in>set els. \<exists>n'. get_node (root d2) (element_node el) = Some n'
              \<and> angle (data n') = Some (Numeric (if flip_angle c then - v else v))"
    by simp_all
  from h have hs: "get_node (root doc1) (node c) = Some self_node"
    and hd: "get_node (root doc1) dup = Some cloned_node" by blast+
  have "materialize env c src dup doc1 = (d2, Inr els)"
    unfolding materialize_unfold [OF hs hd]
    using v d2 s by (simp add: docT_def els_def)
  with a show "\<exists>doc2 els. materialize env c src dup doc1 = (doc2, Inr els)
           \<and> (\<forall>el\<in>set els. \<exists>n'. get_node (root doc2) (element_node el) = Some n'
                  \<and> angle (data n') = Some (Numeric (if flip_angle c then - v else v)))"
    by blast
next
  show "element_angle (c\<lparr>flip_angle := True\<rparr>) a x
       = (case element_angle (c\<lparr>flip_angle := False\<rparr>) a x of
            Inl err \<Rightarrow> Inl err | Inr y \<Rightarrow> Inr (- y))"
    by (rule element_angle_flip)
next
  show "element_angle \<lparr>node = p, clone_fill_angle = Some 45, flip_angle = True\<rparr> a x = Inr (- 45)"
    by (simp add: element_angle_def)
qed

theorem override_fill_angle_witness:
  "clone_fill_angle demo_clone = Some 45
   \<and> get_node (root demo_doc1) (node demo_clone)
       = Some (Node \<lparr>tag = ''use'', transform = identity, angle = None, href = Some [0], attrib = []\<rparr> [])
   \<and> get_node (root demo_doc1) [2] = Some demo_group
   \<and> snd (materialize demo_env demo_clone [0] [2] demo_doc1)
       = Inr [Element ''FillStitch'' [2, 0], Element ''FillStitch'' [2, 1], Element ''FillStitch'' [2, 2]]
   \<and> map_option (angle \<circ> data) (get_node (root (fst (materialize demo_env demo_clone [0] [2] demo_doc1))) [2, 1])
       = Some (Some (Numeric (- 45)))"
proof -
  have h1: "clone_fill_angle demo_clone = Some 45" by (simp add: demo_clone_def)
  have h2: "get_node (root demo_doc1) (node demo_clone)
       = Some (Node \<lparr>tag = ''use'', transform = identity, angle = None, href = Some [0], attrib = []\<rparr> [])"
    by (simp add: demo_doc1_def demo_doc_def demo_clone_def with_child_def)
  have h3: "get_node (root demo_doc1) [2] = Some demo_group"
    by (simp add: demo_doc1_def demo_doc_def with_child_def numeral_2_eq_2)
  have e: "snd (materialize demo_env demo_clone [0] [2] demo_doc1)
       = Inr [Element ''FillStitch'' [2, 0], Element ''FillStitch'' [2, 1], Element ''FillStitch'' [2, 2]]"
    by (simp add: model_defs demo_env_def demo_doc_def demo_clone_def demo_shape_def
        demo_doc1_def demo_group_def with_child_def numeral_2_eq_2 split: prod.splits)
  from override_fill_angle [of demo_clone 45 demo_doc1 _ "[2]" demo_group demo_env "[0]"] h1 h2 h3
  obtain doc2 els where m: "materialize demo_env demo_clone [0] [2] demo_doc1 = (doc2, Inr els)"
    and a: "\<forall>el\<in>set els. \<exists>n'. get_node (root doc2) (element_node el) = Some n'
                  \<and> angle (data n') = Some (Numeric (if flip_angle demo_clone then - 45 else 45))"
    by blast
  from m e have "Element ''FillStitch'' [2, 1] \<in> set els" by simp
  with a have "\<exists>n'. get_node (root doc2) [2, 1] = Some n'
                  \<and> angle (data n') = Some (Numeric (if flip_angle demo_clone then - 45 else 45))"
    by fastforce
  with m have "map_option (angle \<circ> data)
        (get_node (root (fst (materialize demo_env demo_clone [0] [2] demo_doc1))) [2, 1])
       = Some (Some (Numeric (- 45)))"
    by (auto simp: demo_clone_def)
  with h1 h2 h3 e show ?thesis by blast
qed

lemma assign_angles_step:
  assumes "assign_angles c a els doc = (doc', None)" "i < length els"
  shows "\<exists>doc_i n x. assign_angles c a (take i els) doc = (doc_i, None)
           \<and> get_node (root doc_i) (element_node (els ! i)) = Some n
           \<and> element_angle c a (angle (data n)) = Inr x
           \<and> assign_angles c a (take (Suc i) els) doc
               = (set_angle (element_node (els ! i)) x doc_i, None)"
proof -
  obtain doc_i r where p: "assign_angles c a (take i els) doc = (doc_i, r)"
    by (cases "assign_angles c a (take i els) doc") auto
  have "assign_angles c a (take i els @ els ! i # drop (Suc i) els) doc = (doc', None)"
    using assms by (simp only: id_take_nth_drop [symmetric])
  then have w: "(case assign_angles c a (take i els) doc of
        (d, Some err) \<Rightarrow> (d, Some err)
      | (d, None) \<Rightarrow> assign_angles c a (els ! i # drop (Suc i) els) d) = (doc', None)"
    by (simp only: assign_angles_append)
  from w p have r: "r = None" by (cases r) auto
  from w p r have t: "assign_angles c a (els ! i # drop (Suc i) els) doc_i = (doc', None)" by simp
  from t obtain n where n: "get_node (root doc_i) (element_node (els ! i)) = Some n"
    by (cases "get_node (root doc_i) (element_node (els ! i))") auto
  from t n obtain x where x: "element_angle c a (angle (data n)) = Inr x"
    by (cases "element_angle c a (angle (data n))") auto
  have "assign_angles c a (take (Suc i) els) doc
        = assign_angles c a (take i els @ [els ! i]) doc"
    using assms(2) by (simp only: take_Suc_conv_app_nth)
  also have "\<dots> = (set_angle (element_node (els ! i)) x doc_i, None)"
    using p r n x by (simp add: assign_angles_append)
  finally show ?thesis using p r n x by blast
qed

text \<open>
  Derived mode, drawable by drawable. When the materialization succeeds, each drawable in
  turn gets the angle computed from the angle \<open>a_local\<close> that its node declares at that
  moment (0 when the node declares none): the negated polar angle, in degrees, of the
  image of (1, 0) under the angle transform composed with the rotation by \<open>- a_local\<close>
  (negated once more when \<open>flip_angle\<close> is set). When no two drawables share a node,
  \<open>a_local\<close> is the angle the copy was given by the source, and the angle written is the
  one the drawable has when the list is handed out.
\<close>

theorem derived_fill_angle:
  assumes "clone_fill_angle c = None"
    and "get_node (root doc1) (node c) = Some self_node"
    and "get_node (root doc1) dup = Some cloned_node"
    and "materialize env c src dup doc1 = (doc2, Inr els)"
  shows "\<exists>atf.
     angle_transform_of
        (root (set_transform dup (matmul (transform (data self_node)) (transform (data cloned_node))) doc1))
        src dup = Inr atf
     \<and> (\<forall>i<length els. \<exists>doc_i n a_local r.
           assign_angles c (Some atf) (take i els)
              (set_transform dup (matmul (transform (data self_node)) (transform (data cloned_node))) doc1)
             = (doc_i, None)
         \<and> get_node (root doc_i) (element_node (els ! i)) = Some n
         \<and> (angle (data n) = None \<and> a_local = 0 \<or> angle (data n) = Some (Numeric a_local))
         \<and> vector_angle (apply_to_point (matmul atf (rotate_transform (- a_local))) (1, 0)) = Some r
         \<and> assign_angles c (Some atf) (take (Suc i) els)
              (set_transform dup (matmul (transform (data self_node)) (transform (data cloned_node))) doc1)
             = (set_angle (element_node (els ! i))
                  (if flip_angle c then - (- degrees r) else - degrees r) doc_i, None))
     \<and> (distinct (map element_node els) \<longrightarrow>
          (\<forall>el\<in>set els. \<exists>n n' a_local r.
              get_node (root doc1) (element_node el) = Some n
            \<and> (angle (data n) = None \<and> a_local = 0 \<or> angle (data n) = Some (Numeric a_local))
            \<and> vector_angle (apply_to_point (matmul atf (rotate_transform (- a_local))) (1, 0)) = Some r
            \<and> get_node (root doc2) (element_node el) = Some n'
            \<and> angle (data n') = Some (Numeric (if flip_angle c then - (- degrees r) else - degrees r))))"
proof -
  define docT where "docT = set_transform dup
      (matmul (transform (data self_node)) (transform (data cloned_node))) doc1"
  define es where "es = clone_to_elements env (root docT) dup"
  have unf: "materialize env c src dup doc1 =
     (case angle_transform_of (root docT) src dup of
        Inl err \<Rightarrow> (docT, Inl err)
      | Inr atf \<Rightarrow>
          (case assign_angles c (Some atf) es docT of
             (d, Some err) \<Rightarrow> (d, Inl err)
           | (d, None) \<Rightarrow> (d, Inr es)))"
    unfolding materialize_unfold [OF assms(2,3)] docT_def es_def
    using assms(1) by (simp split: sum.splits)
  from unf assms(4) obtain atf where atf: "angle_transform_of (root docT) src dup = Inr atf"
    by (cases "angle_transform_of (root docT) src dup") auto
  from unf assms(4) atf have run: "assign_angles c (Some atf) es docT = (doc2, None)"
    and els: "els = es"
    by (auto split: prod.splits option.splits)
  have iter: "\<exists>doc_i n a_local r.
           assign_angles c (Some atf) (take i els) docT = (doc_i, None)
         \<and> get_node (root doc_i) (element_node (els ! i)) = Some n
         \<and> (angle (data n) = None \<and> a_local = 0 \<or> angle (data n) = Some (Numeric a_local))
         \<and> vector_angle (apply_to_point (matmul atf (rotate_transform (- a_local))) (1, 0)) = Some r
         \<and> assign_angles c (Some atf) (take (Suc i) els) docT
             = (set_angle (element_node (els ! i))
                  (if flip_angle c then - (- degrees r) else - degrees r) doc_i, None)"
    if "i < length els" for i
  proof -
    from assign_angles_step [OF run [folded els] that] obtain doc_i n x where
      s: "assign_angles c (Some atf) (take i els) docT = (doc_i, None)"
         "get_node (root doc_i) (element_node (els ! i)) = Some n"
         "element_angle c (Some atf) (angle (data n)) = Inr x"
         "assign_angles c (Some atf) (take (Suc i) els) docT
               = (set_angle (element_node (els ! i)) x doc_i, None)"
      by blast
    from element_angle_derived_declared [OF assms(1) s(3)] obtain a_local r where
      "angle (data n) = None \<and> a_local = 0 \<or> angle (data n) = Some (Numeric a_local)"
      "vector_angle (apply_to_point (matmul atf (rotate_transform (- a_local))) (1, 0)) = Some r"
      "x = (if flip_angle c then - (- degrees r) else - degrees r)"
      by blast
    with s show ?thesis by blast
  qed
  have fin: "\<exists>n n' a_local r.
              get_node (root doc1) (element_node el) = Some n
            \<and> (angle (data n) = None \<and> a_local = 0 \<or> angle (data n) = Some (Numeric a_local))
            \<and> vector_angle (apply_to_point (matmul atf (rotate_transform (- a_local))) (1, 0)) = Some r
            \<and> get_node (root doc2) (element_node el) = Some n'
            \<and> angle (data n') = Some (Numeric (if flip_angle c then - (- degrees r) else - degrees r))"
    if d: "distinct (map element_node els)" and el: "el \<in> set els" for el
  proof -
    from assign_derived_distinct [OF run [folded els] d] el obtain n1 n' x where
      s: "get_node (root docT) (element_node el) = Some n1"
         "element_angle c (Some atf) (angle (data n1)) = Inr x"
         "get_node (root doc2) (element_node el) = Some n'"
         "angle (data n') = Some (Numeric x)"
      by blast
    from set_transform_keeps_angle [of dup
        "matmul (transform (data self_node)) (transform (data cloned_node))" doc1 "element_node el"]
      s(1) [unfolded docT_def]
    obtain n where n: "get_node (root doc1) (element_node el) = Some n"
        "angle (data n) = angle (data n1)"
      by (cases "get_node (root doc1) (element_node el)") auto
    from element_angle_derived_declared [OF assms(1) s(2)] obtain a_local r where
      ar: "angle (data n1) = None \<and> a_local = 0 \<or> angle (data n1) = Some (Numeric a_local)"
      "vector_angle (apply_to_point (matmul atf (rotate_transform (- a_local))) (1, 0)) = Some r"
      "x = (if flip_angle c then - (- degrees r) else - degrees r)"
      by blast
    from ar(1) n(2)
    have "angle (data n) = None \<and> a_local = 0 \<or> angle (data n) = Some (Numeric a_local)"
      by simp
    with ar(2,3) s(3,4) n(1) show ?thesis by blast
  qed
  from atf iter fin show ?thesis unfolding docT_def by blast
qed

theorem derived_fill_angle_witness:
  "clone_fill_angle demo_derived_clone = None
   \<and> get_node (root angled_doc1) (node demo_derived_clone)
       = Some (Node \<lparr>tag = ''use'', transform = Transform 0 1 (- 1) 0 0 0, angle = None,
                     href = Some [0], attrib = []\<rparr> [])
   \<and> get_node (root angled_doc1) [2] = Some angled_rect
   \<and> angle (data angled_rect) = Some (Numeric 90)
   \<and> snd (materialize demo_env demo_derived_clone [0] [2] angled_doc1) = Inr [Element ''FillStitch'' [2]]
   \<and> distinct (map element_node [Element ''FillStitch'' [2]])
   \<and> vector_angle (apply_to_point
         (matmul (Transform 0 1 (- 1) 0 0 0) (rotate_transform (- 90))) (1, 0)) = Some 0
   \<and> map_option (angle \<circ> data)
        (get_node (root (fst (materialize demo_env demo_derived_clone [0] [2] angled_doc1))) [2])
       = Some (Some (Numeric 0))"
proof -
  let ?use = "Node \<lparr>tag = ''use'', transform = Transform 0 1 (- 1) 0 0 0, angle = None,
                     href = Some [0], attrib = []\<rparr> []"
  let ?docT = "set_transform [2] (matmul (transform (data ?use)) (transform (data angled_rect)))
                 angled_doc1"
  have h1: "clone_fill_angle demo_derived_clone = None" by (simp add: demo_derived_clone_def)
  have h2: "get_node (root angled_doc1) (node demo_derived_clone) = Some ?use"
    by (simp add: angled_doc1_def demo_derived_clone_def)
  have h3: "get_node (root angled_doc1) [2] = Some angled_rect"
    by (simp add: angled_doc1_def numeral_2_eq_2)
  have ha: "angle (data angled_rect) = Some (Numeric 90)" by (simp add: angled_rect_def)
  have e: "snd (materialize demo_env demo_derived_clone [0] [2] angled_doc1)
             = Inr [Element ''FillStitch'' [2]]"
    by (simp add: model_defs demo_env_def demo_derived_clone_def angled_rect_def
        angled_doc1_def numeral_2_eq_2 radians_quarter degrees_values split: prod.splits)
  then have h4: "materialize demo_env demo_derived_clone [0] [2] angled_doc1
      = (fst (materialize demo_env demo_derived_clone [0] [2] angled_doc1), Inr [Element ''FillStitch'' [2]])"
    by (metis prod.collapse)
  have t: "angle_transform_of (root ?docT) [0] [2] = Inr (Transform 0 1 (- 1) 0 0 0)"
    by (simp add: model_defs angled_rect_def angled_doc1_def numeral_2_eq_2)
  have h5: "distinct (map element_node [Element ''FillStitch'' [2]])" by simp
  have v: "vector_angle (apply_to_point
         (matmul (Transform 0 1 (- 1) 0 0 0) (rotate_transform (- 90))) (1, 0)) = Some 0"
    by (simp add: matmul_def rotate_transform_def radians_quarter apply_to_point_def
        vector_angle_def atan2_def)
  from derived_fill_angle [OF h1 h2 h3 h4] obtain atf where
    a: "angle_transform_of (root ?docT) [0] [2] = Inr atf"
    and f: "distinct (map element_node [Element ''FillStitch'' [2]]) \<longrightarrow>
          (\<forall>el\<in>set [Element ''FillStitch'' [2]]. \<exists>n n' a_local r.
              get_node (root angled_doc1) (element_node el) = Some n
            \<and> (angle (data n) = None \<and> a_local = 0 \<or> angle (data n) = Some (Numeric a_local))
            \<and> vector_angle (apply_to_point (matmul atf (rotate_transform (- a_local))) (1, 0)) = Some r
            \<and> get_node (root (fst (materialize demo_env demo_derived_clone [0] [2] angled_doc1)))
                 (element_node el) = Some n'
            \<and> angle (data n') = Some (Numeric
                 (if flip_angle demo_derived_clone then - (- degrees r) else - degrees r)))"
    by blast
  from a t have atf: "atf = Transform 0 1 (- 1) 0 0 0" by simp
  from f h5 obtain n n' a_local r where
    g: "get_node (root angled_doc1) [2] = Some n"
       "angle (data n) = None \<and> a_local = 0 \<or> angle (data n) = Some (Numeric a_local)"
       "vector_angle (apply_to_point (matmul atf (rotate_transform (- a_local))) (1, 0)) = Some r"
       "get_node (root (fst (materialize demo_env demo_derived_clone [0] [2] angled_doc1))) [2] = Some n'"
       "angle (data n') = Some (Numeric
                 (if flip_angle demo_derived_clone then - (- degrees r) else - degrees r))"
    by auto
  from g(1,2) h3 ha have al: "a_local = 90" by simp
  from g(3) v have r: "r = 0"
    unfolding atf al by simp
  from g(4,5) have "map_option (angle \<circ> data)
        (get_node (root (fst (materialize demo_env demo_derived_clone [0] [2] angled_doc1))) [2])
       = Some (Some (Numeric 0))"
    unfolding r by (simp add: demo_derived_clone_def degrees_def)
  with h1 h2 h3 ha e h5 v show ?thesis by blast
qed

text \<open>
  Claim C2. The loop of lines 128 to 144 runs once for every drawable, and each run reads
  the angle on the drawable's node and writes the new one there. A rectangle with a fill
  and a stroke gives two drawables on one node: for the angle 90 declared on the source
  and a clone turned by a quarter, the first run writes 0, the angle of the claim, and the
  second run reads that 0 and writes -90, which is the fill angle of both drawables when
  the list is handed out. For a source that declares no angle the claim gives -90, and
  the two runs leave -180.
\<close>

theorem shared_node_angle_rotated_twice:
  "snd (materialize shared_env demo_derived_clone [0] [2] angled_doc1)
     = Inr [Element ''FillStitch'' [2], Element ''Stroke'' [2]]
   \<and> map_option (angle \<circ> data) (get_node (root angled_doc1) [2]) = Some (Some (Numeric 90))
   \<and> element_angle demo_derived_clone (Some (Transform 0 1 (- 1) 0 0 0)) (Some (Numeric 90)) = Inr 0
   \<and> element_angle demo_derived_clone (Some (Transform 0 1 (- 1) 0 0 0)) (Some (Numeric 0)) = Inr (- 90)
   \<and> map_option (angle \<circ> data)
        (get_node (root (fst (materialize shared_env demo_derived_clone [0] [2] angled_doc1))) [2])
       = Some (Some (Numeric (- 90)))
   \<and> mutations (fst (materialize shared_env demo_derived_clone [0] [2] angled_doc1))
       = [Added [2], SetTransform [2], SetAngle [2], SetAngle [2]]
   \<and> map_option (angle \<circ> data) (get_node (root derived_doc1) [2]) = Some None
   \<and> element_angle demo_derived_clone (Some (Transform 0 1 (- 1) 0 0 0)) None = Inr (- 90)
   \<and> map_option (angle \<circ> data)
        (get_node (root (fst (materialize shared_env demo_derived_clone [0] [2] derived_doc1))) [2])
       = Some (Some (Numeric (- 180)))"
  by (simp add: model_defs shared_env_def demo_derived_clone_def angled_rect_def demo_shape_def
        angled_doc1_def derived_doc1_def numeral_2_eq_2 radians_quarter degrees_values
        split: prod.splits)

section \<open>The angle transform\<close>

lemma neg_inverse:
  assumes "t_a s * t_d s - t_c s * t_b s \<noteq> 0"
  shows "\<exists>s'. neg s = Inr s' \<and> matmul s s' = identity \<and> matmul s' s = identity"
proof -
  define det where "det = t_a s * t_d s - t_c s * t_b s"
  define s' where "s' = Transform (t_d s / det) (- t_b s / det) (- t_c s / det) (t_a s / det)
      (- (t_d s / det * t_e s + - t_c s / det * t_f s))
      (- (- t_b s / det * t_e s + t_a s / det * t_f s))"
  have nz: "det \<noteq> 0" using assms by (simp add: det_def)
  have n: "neg s = Inr s'"
    using nz by (simp add: neg_def s'_def det_def Let_def)
  have d1: "t_a s * t_d s - t_c s * t_b s = det" by (simp add: det_def)
  have a1: "t_a s * (t_d s / det) + t_c s * (- t_b s / det) = 1"
  proof -
    have "t_a s * (t_d s / det) + t_c s * (- t_b s / det) = (t_a s * t_d s - t_c s * t_b s) / det"
      using nz by (simp add: field_simps)
    then show ?thesis using nz d1 by simp
  qed
  have a2: "t_b s * (t_d s / det) + t_d s * (- t_b s / det) = 0"
    using nz by (simp add: field_simps)
  have a3: "t_a s * (- t_c s / det) + t_c s * (t_a s / det) = 0"
    using nz by (simp add: field_simps)
  have a4: "t_b s * (- t_c s / det) + t_d s * (t_a s / det) = 1"
  proof -
    have "t_b s * (- t_c s / det) + t_d s * (t_a s / det) = (t_a s * t_d s - t_c s * t_b s) / det"
      using nz by (simp add: field_simps)
    then show ?thesis using nz d1 by simp
  qed
  have a5: "t_a s * (- (t_d s / det * t_e s + - t_c s / det * t_f s))
            + t_c s * (- (- t_b s / det * t_e s + t_a s / det * t_f s)) + t_e s = 0"
  proof -
    have "t_a s * (- (t_d s / det * t_e s + - t_c s / det * t_f s))
            + t_c s * (- (- t_b s / det * t_e s + t_a s / det * t_f s))
          = - ((t_a s * t_d s - t_c s * t_b s) / det) * t_e s"
      using nz by (simp add: field_simps)
    also have "\<dots> = - t_e s" using nz d1 by simp
    finally show ?thesis by simp
  qed
  have a6: "t_b s * (- (t_d s / det * t_e s + - t_c s / det * t_f s))
            + t_d s * (- (- t_b s / det * t_e s + t_a s / det * t_f s)) + t_f s = 0"
  proof -
    have "t_b s * (- (t_d s / det * t_e s + - t_c s / det * t_f s))
            + t_d s * (- (- t_b s / det * t_e s + t_a s / det * t_f s))
          = - ((t_a s * t_d s - t_c s * t_b s) / det) * t_f s"
      using nz by (simp add: field_simps)
    also have "\<dots> = - t_f s" using nz d1 by simp
    finally show ?thesis by simp
  qed
  have r: "matmul s s' = identity"
    unfolding matmul_def identity_def s'_def transform.sel
    using a1 a2 a3 a4 a5 a6 by (simp only:)
  have b1: "t_d s / det * t_a s + - t_c s / det * t_b s = 1"
  proof -
    have "t_d s / det * t_a s + - t_c s / det * t_b s = (t_a s * t_d s - t_c s * t_b s) / det"
      using nz by (simp add: field_simps)
    then show ?thesis using nz d1 by simp
  qed
  have b2: "- t_b s / det * t_a s + t_a s / det * t_b s = 0"
    using nz by (simp add: field_simps)
  have b3: "t_d s / det * t_c s + - t_c s / det * t_d s = 0"
    using nz by (simp add: field_simps)
  have b4: "- t_b s / det * t_c s + t_a s / det * t_d s = 1"
  proof -
    have "- t_b s / det * t_c s + t_a s / det * t_d s = (t_a s * t_d s - t_c s * t_b s) / det"
      using nz by (simp add: field_simps)
    then show ?thesis using nz d1 by simp
  qed
  have b5: "t_d s / det * t_e s + - t_c s / det * t_f s
            + - (t_d s / det * t_e s + - t_c s / det * t_f s) = 0"
    by simp
  have b6: "- t_b s / det * t_e s + t_a s / det * t_f s
            + - (- t_b s / det * t_e s + t_a s / det * t_f s) = 0"
    by simp
  have l: "matmul s' s = identity"
    unfolding matmul_def identity_def s'_def transform.sel
    using b1 b2 b3 b4 b5 b6 by (simp only:)
  from n r l show ?thesis by blast
qed

lemma neg_singular:
  "t_a s * t_d s - t_c s * t_b s = 0 \<Longrightarrow> neg s = Inl ZeroDivisionError"
  by (simp add: neg_def)

lemma set_transform_root_with_child:
  assumes "get_node t parent = Some pn" "root doc1 = with_child t parent d"
  shows "root (set_transform (parent @ [length (children pn)]) x doc1)
         = with_child t parent (Node ((data d)\<lparr>transform := x\<rparr>) (children d))"
  using set_transform_scoped(1) [OF assms, of "[]" x] by simp

text \<open>
  Claim C1, as the code has it. In derived mode the angle transform is computed in the
  document that holds the duplicate with its transform set. The source's composed
  transform S there is its composed transform in the untouched document; the duplicate's
  composed transform C is the composed transform of the clone's parent times the clone's
  own transform times the source's own transform. Unary minus on S is the inverse of S:
  when the determinant of S is zero the computation fails with \<open>ZeroDivisionError\<close>,
  otherwise the angle transform is the product of C and the inverse of S, with the
  translation set to zero.
\<close>

theorem angle_transform_is_inverse_composition:
  assumes "get_clone_source (root doc) (node c) = Some src"
    and "get_node (root doc) src = Some source_node"
    and "get_node (root doc) (node c) = Some self_node"
    and "node c \<noteq> []"
    and "add (butlast (node c)) (deepcopy source_node) doc = Inr (dup, doc1)"
  shows "\<exists>S C P.
       get_node (root doc1) (node c) = Some self_node
     \<and> get_node (root doc1) dup = Some source_node
     \<and> composed_transform (root doc) src = Some S
     \<and> composed_transform (root doc) (butlast (node c)) = Some P
     \<and> C = matmul P (matmul (transform (data self_node)) (transform (data source_node)))
     \<and> composed_transform
          (root (set_transform dup (matmul (transform (data self_node)) (transform (data source_node))) doc1))
          src = Some S
     \<and> composed_transform
          (root (set_transform dup (matmul (transform (data self_node)) (transform (data source_node))) doc1))
          dup = Some C
     \<and> (t_a S * t_d S - t_c S * t_b S = 0 \<longrightarrow>
          angle_transform_of
            (root (set_transform dup (matmul (transform (data self_node)) (transform (data source_node))) doc1))
            src dup = Inl ZeroDivisionError)
     \<and> (t_a S * t_d S - t_c S * t_b S \<noteq> 0 \<longrightarrow>
          (\<exists>S'. neg S = Inr S' \<and> matmul S S' = identity \<and> matmul S' S = identity
             \<and> angle_transform_of
                  (root (set_transform dup (matmul (transform (data self_node)) (transform (data source_node))) doc1))
                  src dup = Inr (strip_translation (matmul C S'))))"
proof -
  let ?parent = "butlast (node c)"
  let ?T = "matmul (transform (data self_node)) (transform (data source_node))"
  let ?docT = "set_transform dup ?T doc1"
  from get_node_parent [OF assms(3,4)] obtain pn where pn: "get_node (root doc) ?parent = Some pn"
    by blast
  from assms(5) add_scoped [OF pn, of "deepcopy source_node"]
  have dup: "dup = ?parent @ [length (children pn)]"
    and r1: "root doc1 = with_child (root doc) ?parent source_node"
    by (auto simp: deepcopy_def)
  have g1: "get_node (root doc1) dup = Some source_node"
    unfolding r1 dup using get_with_child_dup [OF pn, of source_node "[]"] by simp
  have fresh: "get_node (root doc) dup = None"
    unfolding dup using get_node_dup_fresh [OF pn, of "[]"] by simp
  have ne: "node c \<noteq> dup" using assms(3) fresh by auto
  have g2: "get_node (root doc1) (node c) = Some self_node"
  proof -
    from get_with_child_old [OF assms(3), of ?parent source_node]
    obtain n' where n': "get_node (root doc1) (node c) = Some n'" "data n' = data self_node"
      unfolding r1 by blast
    have "node c = ?parent @ [last (node c)]" using assms(4) by simp
    then have "get_node (root doc) (?parent @ [last (node c)]) = Some self_node"
      using assms(3) by simp
    then have lt: "last (node c) < length (children pn)" and sn: "children pn ! last (node c) = self_node"
      using pn by (auto simp: get_node_append split: if_splits)
    have "get_node (root doc1) ?parent = Some (Node (data pn) (children pn @ [source_node]))"
      unfolding r1 with_child_def by (rule get_update_same [OF pn])
    then have "get_node (root doc1) (?parent @ [last (node c)]) = Some self_node"
      using lt sn by (simp add: get_node_append nth_append)
    then show ?thesis using assms(4) by simp
  qed
  have rT: "root ?docT = with_child (root doc) ?parent (Node ((data source_node)\<lparr>transform := ?T\<rparr>) (children source_node))"
    unfolding dup by (rule set_transform_root_with_child [OF pn r1])
  have vs: "get_node (root doc) src \<noteq> None" using assms(2) by simp
  have vp: "get_node (root doc) ?parent \<noteq> None" using pn by simp
  obtain S where S: "composed_transform (root doc) src = Some S"
    using compose_along_valid [OF vs] by (auto simp: composed_transform_def)
  obtain P where P: "composed_transform (root doc) ?parent = Some P"
    using compose_along_valid [OF vp] by (auto simp: composed_transform_def)
  have cs: "composed_transform (root ?docT) src = Some S"
    unfolding rT using composed_transform_with_child [OF vs] S by simp
  have cd: "composed_transform (root ?docT) dup = Some (matmul P ?T)"
  proof -
    have "composed_transform
            (with_child (root doc) ?parent (Node ((data source_node)\<lparr>transform := ?T\<rparr>) (children source_node)))
            (?parent @ [length (children pn)]) = Some (matmul P ?T)"
      using composed_transform_dup [OF pn,
          of "Node ((data source_node)\<lparr>transform := ?T\<rparr>) (children source_node)"] P
      by simp
    then show ?thesis unfolding rT by (simp only: dup)
  qed
  have sing: "angle_transform_of (root ?docT) src dup = Inl ZeroDivisionError"
    if "t_a S * t_d S - t_c S * t_b S = 0"
    using cs cd neg_singular [OF that] by (simp add: angle_transform_of_def)
  have reg: "\<exists>S'. neg S = Inr S' \<and> matmul S S' = identity \<and> matmul S' S = identity
             \<and> angle_transform_of (root ?docT) src dup = Inr (strip_translation (matmul (matmul P ?T) S'))"
    if "t_a S * t_d S - t_c S * t_b S \<noteq> 0"
  proof -
    from neg_inverse [OF that] obtain S' where
      S': "neg S = Inr S'" "matmul S S' = identity" "matmul S' S = identity" by blast
    have "angle_transform_of (root ?docT) src dup = Inr (strip_translation (matmul (matmul P ?T) S'))"
      using cs cd S'(1) by (simp add: angle_transform_of_def strip_translation_def Let_def)
    with S' show ?thesis by blast
  qed
  from g1 g2 S P cs cd sing reg show ?thesis by blast
qed

theorem angle_transform_is_inverse_composition_witness:
  "get_clone_source (root demo_doc) (node demo_derived_clone) = Some [0]
   \<and> get_node (root demo_doc) [0] = Some demo_group
   \<and> get_node (root demo_doc) (node demo_derived_clone)
       = Some (Node \<lparr>tag = ''use'', transform = identity, angle = None, href = Some [0], attrib = []\<rparr> [])
   \<and> node demo_derived_clone \<noteq> []
   \<and> add (butlast (node demo_derived_clone)) (deepcopy demo_group) demo_doc = Inr ([2], demo_doc1)
   \<and> composed_transform (root demo_doc) [0] = Some identity
   \<and> t_a identity * t_d identity - t_c identity * t_b identity \<noteq> 0
   \<and> angle_transform_of (root demo_derived_doc) [0] [2] = Inr identity"
proof -
  let ?use = "Node \<lparr>tag = ''use'', transform = identity, angle = None, href = Some [0], attrib = []\<rparr> []"
  have h1: "get_clone_source (root demo_doc) (node demo_derived_clone) = Some [0]"
    by (simp add: get_clone_source_def demo_doc_def demo_derived_clone_def)
  have h2: "get_node (root demo_doc) [0] = Some demo_group"
    by (simp add: demo_doc_def demo_group_def)
  have h3: "get_node (root demo_doc) (node demo_derived_clone) = Some ?use"
    by (simp add: demo_doc_def demo_derived_clone_def)
  have h4: "node demo_derived_clone \<noteq> []" by (simp add: demo_derived_clone_def)
  have h5: "add (butlast (node demo_derived_clone)) (deepcopy demo_group) demo_doc = Inr ([2], demo_doc1)"
    by (simp add: add_def demo_doc_def demo_derived_clone_def demo_doc1_def with_child_def
        deepcopy_def numeral_2_eq_2 Let_def)
  have s: "composed_transform (root demo_doc) [0] = Some identity"
    by (simp add: composed_transform_def demo_doc_def matmul_def identity_def)
  have d: "t_a identity * t_d identity - t_c identity * t_b identity \<noteq> 0"
    by (simp add: identity_def)
  have t: "matmul (transform (data ?use)) (transform (data demo_group)) = matmul identity identity"
    by (simp add: demo_group_def)
  from angle_transform_is_inverse_composition [OF h1 h2 h3 h4 h5] obtain S C P where
    a: "composed_transform (root demo_doc) [0] = Some S"
       "composed_transform (root demo_doc) (butlast (node demo_derived_clone)) = Some P"
       "C = matmul P (matmul (transform (data ?use)) (transform (data demo_group)))"
       "t_a S * t_d S - t_c S * t_b S \<noteq> 0 \<longrightarrow>
          (\<exists>S'. neg S = Inr S' \<and> matmul S S' = identity \<and> matmul S' S = identity
             \<and> angle_transform_of
                  (root (set_transform [2] (matmul (transform (data ?use)) (transform (data demo_group))) demo_doc1))
                  [0] [2] = Inr (strip_translation (matmul C S')))"
    by blast
  from a(1) s have S: "S = identity" by simp
  from a(2) have P: "P = identity"
    by (simp add: composed_transform_def demo_doc_def demo_derived_clone_def)
  from a(4) d S obtain S' where
    S': "neg identity = Inr S'"
      "angle_transform_of (root demo_derived_doc) [0] [2] = Inr (strip_translation (matmul C S'))"
    unfolding t demo_derived_doc_def by blast
  from S'(1) have "S' = identity" by (simp add: neg_def identity_def)
  with S'(2) a(3) P have "angle_transform_of (root demo_derived_doc) [0] [2] = Inr identity"
    unfolding t by (simp add: strip_translation_def matmul_def identity_def)
  with h1 h2 h3 h4 h5 s d show ?thesis by blast
qed

text \<open>
  The claim as the spec states it fails where every transform is the identity: the
  duplicate's and the source's composed transforms are the identity, the code's angle
  transform is the identity, and the composition with \<open>negate_of\<close> is the point
  reflection.
\<close>

theorem angle_transform_negate_of_counterexample:
  "composed_transform (root demo_derived_doc) [2] = Some identity
   \<and> composed_transform (root demo_derived_doc) [0] = Some identity
   \<and> angle_transform_of (root demo_derived_doc) [0] [2] = Inr identity
   \<and> matmul identity (negate_of identity) = Transform (- 1) 0 0 (- 1) 0 0
   \<and> angle_transform_of (root demo_derived_doc) [0] [2] \<noteq> Inr (matmul identity (negate_of identity))"
  by (simp add: model_defs demo_derived_doc_def demo_doc1_def demo_doc_def demo_group_def
      demo_shape_def with_child_def negate_of_def numeral_2_eq_2)

section \<open>Reference cycles and the cache key\<close>

lemma clone_chain_source_is_clone:
  assumes "clone_chain use_tag cmd tree (Suc k) pos = Some pos"
  shows "\<exists>src source_node. get_clone_source tree pos = Some src
           \<and> get_node tree src = Some source_node
           \<and> is_clone use_tag cmd source_node"
proof -
  from assms obtain n where n: "get_node tree pos = Some n" and c: "is_clone use_tag cmd n"
    by (auto split: option.splits if_splits)
  from assms n c obtain src where s: "get_clone_source tree pos = Some src"
    and r: "clone_chain use_tag cmd tree k src = Some pos"
    by (auto split: option.splits)
  from get_clone_source_valid [OF s] obtain sn where sn: "get_node tree src = Some sn" by blast
  have "is_clone use_tag cmd sn"
  proof (cases k)
    case 0
    with r have "src = pos" by simp
    with n sn c show ?thesis by simp
  next
    case (Suc k')
    with r sn show ?thesis by (auto split: option.splits if_splits)
  qed
  with s sn show ?thesis by blast
qed

text \<open>
  Claim C5, as the code has it. A clone whose chain of sources leads through clones back
  to itself is not reported as a cycle. Its source is a clone, so the source's tag is
  the use tag; when that tag is neither an embroiderable tag nor the group tag, the
  source is ineligible: the scope hands out the empty list, \<open>to_stitch_groups\<close> returns
  the empty list without a failure, no duplicate is made and the document is the one
  before.
\<close>

theorem cyclic_clone_yields_nothing:
  assumes "clone_chain use_tag cmd (root doc) (Suc k) (node c) = Some (node c)"
    and "use_tag \<notin> set (EMBROIDERABLE_TAGS env)"
    and "use_tag \<noteq> SVG_GROUP_TAG env"
  shows "clone_elements env c body doc = (doc, body (root doc) [])
       \<and> to_stitch_groups env c last_patch doc = (doc, Inr [])"
proof -
  from clone_chain_source_is_clone [OF assms(1)] obtain src source_node where
    s: "get_clone_source (root doc) (node c) = Some src"
    and n: "get_node (root doc) src = Some source_node"
    and c: "is_clone use_tag cmd source_node"
    by blast
  from c have "tag (data source_node) = use_tag"
    by (simp add: is_clone_def split: if_splits)
  with assms(2,3) have "tag (data source_node) \<notin> set (EMBROIDERABLE_TAGS env)"
    "tag (data source_node) \<noteq> SVG_GROUP_TAG env" by simp_all
  with s n show ?thesis by (simp add: clone_elements_def to_stitch_groups_def)
qed

theorem cyclic_clone_yields_nothing_witness:
  "clone_chain ''use'' no_command (root cyclic_doc) (Suc 1) (node cyclic_clone) = Some (node cyclic_clone)
   \<and> ''use'' \<notin> set (EMBROIDERABLE_TAGS demo_env)
   \<and> ''use'' \<noteq> SVG_GROUP_TAG demo_env
   \<and> to_stitch_groups demo_env cyclic_clone (None :: string option) cyclic_doc = (cyclic_doc, Inr [])"
proof -
  have h: "clone_chain ''use'' no_command (root cyclic_doc) (Suc 1) (node cyclic_clone)
             = Some (node cyclic_clone)"
    by (simp add: get_clone_source_def cyclic_doc_def cyclic_clone_def is_clone_def no_command_def)
  have t: "''use'' \<notin> set (EMBROIDERABLE_TAGS demo_env)" "''use'' \<noteq> SVG_GROUP_TAG demo_env"
    by (simp_all add: demo_env_def)
  from cyclic_clone_yields_nothing [OF h t, of "\<lambda>tree elements. Inr ()" None]
  have "to_stitch_groups demo_env cyclic_clone (None :: string option) cyclic_doc = (cyclic_doc, Inr [])"
    by blast
  with h t show ?thesis by blast
qed

text \<open>
  The claim as the spec states it fails on two clones that refer to each other: the chain
  of sources of the first leads back to it, and its materialization returns the empty
  list instead of failing.
\<close>

theorem cyclic_reference_counterexample:
  "get_clone_source (root cyclic_doc) [0] = Some [1]
   \<and> get_clone_source (root cyclic_doc) [1] = Some [0]
   \<and> chain_from (root cyclic_doc) 2 (node cyclic_clone) = Some (node cyclic_clone)
   \<and> to_stitch_groups demo_env cyclic_clone (None :: string option) cyclic_doc = (cyclic_doc, Inr [])"
  by (simp add: to_stitch_groups_def clone_elements_def get_clone_source_def cyclic_doc_def
      cyclic_clone_def demo_env_def numeral_2_eq_2)







end
